theory Spec2Isabelle
  imports Main "HOL-Library.Sublist"
begin

section \<open>Python strings\<close>

text \<open>
  A Python \<^verbatim>\<open>str\<close> is a sequence of Unicode code points, modelled as a list of natural
  numbers; \<open>ustr\<close> turns an ASCII literal into one. The source calls \<^verbatim>\<open>str.title()\<close>,
  \<^verbatim>\<open>str.split()\<close> and \<^verbatim>\<open>" ".join(...)\<close>, and the serializer fields call
  \<^verbatim>\<open>str.strip()\<close>.
\<close>

type_synonym ustring = "nat list"

definition ustr :: "string \<Rightarrow> ustring" where
  "ustr s = map of_char s"

text \<open>
  The whitespace of \<^verbatim>\<open>str.split()\<close> and \<^verbatim>\<open>str.strip()\<close>: the code points that the
  Unicode database classifies as whitespace or as bidirectional type WS, B or S.
\<close>

definition isspace :: "nat \<Rightarrow> bool" where
  "isspace c =
     ((0x09 \<le> c \<and> c \<le> 0x0D) \<or> (0x1C \<le> c \<and> c \<le> 0x20) \<or> c = 0x85 \<or> c = 0xA0
      \<or> c = 0x1680 \<or> (0x2000 \<le> c \<and> c \<le> 0x200A) \<or> c = 0x2028 \<or> c = 0x2029
      \<or> c = 0x202F \<or> c = 0x205F \<or> c = 0x3000)"

text \<open>
  The case properties and case mappings of the Unicode database are tables of the Python
  runtime; the model takes them as a parameter. A full case mapping of one code point is
  a string of one to three code points.
\<close>

record case_tables =
  IsCased :: "nat \<Rightarrow> bool"
  IsCaseIgnorable :: "nat \<Rightarrow> bool"
  ToTitleFull :: "nat \<Rightarrow> ustring"
  ToLowerFull :: "nat \<Rightarrow> ustring"

text \<open>
  Lower-casing the capital sigma (U+03A3) at position \<open>i\<close> of \<open>data\<close> gives the final
  sigma (U+03C2) when a cased character precedes it and none follows it, case-ignorable
  characters skipped, and the small sigma (U+03C3) otherwise.
\<close>

definition handle_capital_sigma :: "case_tables \<Rightarrow> ustring \<Rightarrow> nat \<Rightarrow> nat" where
  "handle_capital_sigma U data i =
     (let preceding = dropWhile (IsCaseIgnorable U) (rev (take i data));
          following = dropWhile (IsCaseIgnorable U) (drop (Suc i) data);
          final_sigma = ((preceding \<noteq> [] \<and> IsCased U (hd preceding))
                          \<and> (following = [] \<or> \<not> IsCased U (hd following)))
      in if final_sigma then 0x3C2 else 0x3C3)"

definition lower_ucs4 :: "case_tables \<Rightarrow> ustring \<Rightarrow> nat \<Rightarrow> nat \<Rightarrow> ustring" where
  "lower_ucs4 U data i c =
     (if c = 0x3A3 then [handle_capital_sigma U data i] else ToLowerFull U c)"

text \<open>
  \<^verbatim>\<open>str.title()\<close>: one pass over \<open>data\<close> with the flag "the previous character is
  cased"; the character at position \<open>i\<close> is lower-cased after a cased character and
  title-cased otherwise.
\<close>

fun do_title :: "case_tables \<Rightarrow> ustring \<Rightarrow> nat \<Rightarrow> bool \<Rightarrow> ustring \<Rightarrow> ustring" where
  "do_title U data i previous_is_cased [] = []"
| "do_title U data i previous_is_cased (c # cs) =
     (if previous_is_cased then lower_ucs4 U data i c else ToTitleFull U c)
       @ do_title U data (Suc i) (IsCased U c) cs"

definition title :: "case_tables \<Rightarrow> ustring \<Rightarrow> ustring" where
  "title U s = do_title U s 0 False s"

text \<open>
  \<^verbatim>\<open>str.split()\<close> without a separator: runs of whitespace separate the words, and no
  empty word is produced. The first argument is the word read so far.
\<close>

fun split_from :: "ustring \<Rightarrow> ustring \<Rightarrow> ustring list" where
  "split_from w [] = (if w = [] then [] else [w])"
| "split_from w (c # cs) =
     (if isspace c then (if w = [] then split_from [] cs else w # split_from [] cs)
      else split_from (w @ [c]) cs)"

definition split :: "ustring \<Rightarrow> ustring list" where
  "split s = split_from [] s"

fun join :: "ustring \<Rightarrow> ustring list \<Rightarrow> ustring" where
  "join sep [] = []"
| "join sep [x] = x"
| "join sep (x # y # ys) = x @ sep @ join sep (y # ys)"

definition strip :: "ustring \<Rightarrow> ustring" where
  "strip s = rev (dropWhile isspace (rev (dropWhile isspace s)))"

subsection \<open>What the string operations are to compute\<close>

text \<open>
  Stated apart from the loops above, to compare them with. The words of a string are its
  maximal runs of characters that are not whitespace, in order.
\<close>

function words_spec :: "ustring \<Rightarrow> ustring list" where
  "words_spec s =
     (case dropWhile isspace s of
        [] \<Rightarrow> []
      | c # cs \<Rightarrow> takeWhile (\<lambda>x. \<not> isspace x) (c # cs)
                   # words_spec (dropWhile (\<lambda>x. \<not> isspace x) (c # cs)))"
  by pat_completeness auto
termination
proof (relation "measure length")
  show "wf (measure length)" by simp
next
  fix s :: ustring and c cs
  assume a: "dropWhile isspace s = c # cs"
  then have "\<not> isspace c" by (metis hd_dropWhile list.sel(1) list.distinct(1))
  then have "dropWhile (\<lambda>x. \<not> isspace x) (c # cs) = dropWhile (\<lambda>x. \<not> isspace x) cs" by simp
  moreover have "length (dropWhile (\<lambda>x. \<not> isspace x) cs) \<le> length cs"
    by (rule length_dropWhile_le)
  moreover have "length (c # cs) \<le> length s"
    using a length_dropWhile_le [of isspace s] by simp
  ultimately show "(dropWhile (\<lambda>x. \<not> isspace x) (c # cs), s) \<in> measure length" by simp
qed

declare words_spec.simps [simp del]

text \<open>
  A title-cased string, position by position: the character at a position is lower-cased
  when the character just before it is cased, and title-cased when there is none or it is
  not cased.
\<close>

definition title_spec :: "case_tables \<Rightarrow> ustring \<Rightarrow> ustring" where
  "title_spec U s =
     concat (map (\<lambda>i. if 0 < i \<and> IsCased U (s ! (i - 1)) then lower_ucs4 U s i (s ! i)
                      else ToTitleFull U (s ! i)) [0..<length s])"

text \<open>Words joined by a separator: the first word, then each further word after a separator.\<close>

definition joined_spec :: "ustring \<Rightarrow> ustring list \<Rightarrow> ustring" where
  "joined_spec sep ws =
     (case ws of [] \<Rightarrow> [] | w # rest \<Rightarrow> w @ concat (map (\<lambda>x. sep @ x) rest))"

text \<open>
  What the theorems below use of the case tables, and the Unicode database satisfies: a
  case mapping is never the empty string, and it maps to whitespace, to the null
  character or to a surrogate only a character that is one itself.
\<close>

definition is_surrogate :: "nat \<Rightarrow> bool" where
  "is_surrogate c = (0xD800 \<le> c \<and> c \<le> 0xDFFF)"

definition case_tables_ok :: "case_tables \<Rightarrow> bool" where
  "case_tables_ok U =
     (\<forall>c. ToTitleFull U c \<noteq> [] \<and> ToLowerFull U c \<noteq> []
        \<and> (\<not> isspace c \<longrightarrow>
             (\<forall>d\<in>set (ToTitleFull U c) \<union> set (ToLowerFull U c). \<not> isspace d))
        \<and> (c \<noteq> 0 \<longrightarrow> 0 \<notin> set (ToTitleFull U c) \<union> set (ToLowerFull U c))
        \<and> (\<not> is_surrogate c \<longrightarrow>
             (\<forall>d\<in>set (ToTitleFull U c) \<union> set (ToLowerFull U c). \<not> is_surrogate d)))"

section \<open>The persistence store\<close>

text \<open>
  One list of rows per table, in insertion order, and one counter per auto-increment
  primary key. \<^verbatim>\<open>set_password\<close> stores a salted hash that \<^verbatim>\<open>check_password\<close>
  verifies; the hash is kept abstract as \<open>make_password\<close> of the raw password.
\<close>

datatype password_hash = make_password ustring

fun check_password :: "ustring \<Rightarrow> password_hash \<Rightarrow> bool" where
  "check_password raw (make_password p) = (raw = p)"

text \<open>\<^verbatim>\<open>django.contrib.auth.models.User\<close>, the fields the repository reads and writes.\<close>

record User =
  User_id :: nat
  User_username :: ustring
  User_email :: ustring
  User_password :: password_hash
  User_first_name :: ustring
  User_last_name :: ustring
  User_is_active :: bool

text \<open>\<^verbatim>\<open>user_auth_app/models.py\<close>: \<^verbatim>\<open>UserProfile\<close>.\<close>

record UserProfile =
  UserProfile_id :: nat
  UserProfile_user :: nat
  UserProfile_email :: ustring
  UserProfile_tel :: "ustring option"
  UserProfile_file :: "ustring option"
  UserProfile_created_at :: nat

text \<open>\<^verbatim>\<open>rest_framework.authtoken.models.Token\<close>: the key is the primary key.\<close>

record Token =
  Token_key :: string
  Token_user :: nat
  Token_created :: nat

text \<open>\<^verbatim>\<open>messenger_app/models.py\<close>: \<^verbatim>\<open>Chat\<close>, \<^verbatim>\<open>Message\<close>, \<^verbatim>\<open>Post\<close>.\<close>

record Chat =
  Chat_id :: nat
  Chat_title :: ustring

record Message =
  Message_id :: nat
  Message_chat :: "nat option"
  Message_author :: "nat option"
  Message_text :: ustring

record Post =
  Post_id :: nat
  Post_chat :: "nat option"
  Post_author :: nat
  Post_title :: ustring
  Post_content :: ustring
  Post_created_at :: nat

record store =
  users :: "User list"
  profiles :: "UserProfile list"
  tokens :: "Token list"
  chats :: "Chat list"
  chat_members :: "(nat \<times> nat) list"
  messages :: "Message list"
  posts :: "Post list"
  user_seq :: nat
  profile_seq :: nat
  chat_seq :: nat
  post_seq :: nat

definition empty_store :: store where
  "empty_store = \<lparr>users = [], profiles = [], tokens = [], chats = [], chat_members = [],
     messages = [], posts = [], user_seq = 1, profile_seq = 1, chat_seq = 1, post_seq = 1\<rparr>"

text \<open>
  What a request handler reads from outside the store: the clock (\<^verbatim>\<open>auto_now_add\<close>),
  the random key of a new token (\<^verbatim>\<open>os.urandom\<close>), and the framework's e-mail syntax
  check, which the repository only refers to through \<^verbatim>\<open>EmailField\<close>.
\<close>

record env =
  now :: nat
  generate_key :: string
  EmailValidator :: "ustring \<Rightarrow> bool"

section \<open>Requests, responses and field validation\<close>

text \<open>A JSON member is absent, \<^verbatim>\<open>null\<close>, or has a value.\<close>

datatype 'a supplied = Omitted | Null | Given 'a

record account_data =
  data_token :: string
  data_username :: ustring
  data_email :: ustring
  data_user_id :: nat

text \<open>
  A validation error of the framework is an error code with its parameters;
  \<open>message\<close> renders the text the client receives.
\<close>

datatype ErrorDetail =
    E_required
  | E_null
  | E_blank
  | E_max_length nat
  | E_null_characters
  | E_surrogate_characters nat
  | E_invalid_email
  | E_does_not_exist nat
  | E_message string

fun str :: "nat \<Rightarrow> string" where
  "str n = (if n < 10 then [char_of (48 + n)] else str (n div 10) @ [char_of (48 + n mod 10)])"

fun hex :: "nat \<Rightarrow> string" where
  "hex n = (if n < 16 then [''0123456789ABCDEF'' ! n]
            else hex (n div 16) @ [''0123456789ABCDEF'' ! (n mod 16)])"

fun message :: "ErrorDetail \<Rightarrow> string" where
  "message E_required = ''This field is required.''"
| "message E_null = ''This field may not be null.''"
| "message E_blank = ''This field may not be blank.''"
| "message (E_max_length n) = ''Ensure this field has no more than '' @ str n @ '' characters.''"
| "message E_null_characters = ''Null characters are not allowed.''"
| "message (E_surrogate_characters c) = ''Surrogate characters are not allowed: U+'' @ hex c @ ''.''"
| "message E_invalid_email = ''Enter a valid email address.''"
| "message (E_does_not_exist pk) =
     ''Invalid pk '' @ [CHR 0x22] @ str pk @ [CHR 0x22] @ '' - object does not exist.''"
| "message (E_message m) = m"

datatype body =
    Errors "(string \<times> ErrorDetail list) list"
  | Detail "(string \<times> string) list"
  | Account account_data
  | PostData Post
  | PostList "Post list"
  | NoContent

record response =
  status :: nat
  body :: body

text \<open>
  \<^verbatim>\<open>serializers.CharField\<close>: a required field that rejects \<^verbatim>\<open>null\<close>; a value that is
  empty (after trimming, when \<^verbatim>\<open>trim_whitespace\<close>) is blank; the value handed on is the
  trimmed one; the validators report together.
\<close>

definition run_validators :: "(bool \<times> ErrorDetail) list \<Rightarrow> 'a \<Rightarrow> ErrorDetail list + 'a" where
  "run_validators checks v =
     (case map snd (filter (\<lambda>c. \<not> fst c) checks) of [] \<Rightarrow> Inr v | e # es \<Rightarrow> Inl (e # es))"

definition max_length_check :: "nat option \<Rightarrow> ustring \<Rightarrow> (bool \<times> ErrorDetail) list" where
  "max_length_check m v = (case m of None \<Rightarrow> [] | Some n \<Rightarrow> [(length v \<le> n, E_max_length n)])"

text \<open>The first surrogate code point of the value, if there is one, is an error.\<close>

definition surrogate_check :: "ustring \<Rightarrow> (bool \<times> ErrorDetail) list" where
  "surrogate_check v =
     (case filter is_surrogate v of
        [] \<Rightarrow> []
      | c # cs \<Rightarrow> [(False, E_surrogate_characters c)])"

definition CharField ::
  "bool \<Rightarrow> bool \<Rightarrow> nat option \<Rightarrow> (ustring \<Rightarrow> (bool \<times> ErrorDetail) list)
     \<Rightarrow> ustring supplied \<Rightarrow> ErrorDetail list + ustring" where
  "CharField allow_blank trim_whitespace max_length extra data =
     (case data of
        Omitted \<Rightarrow> Inl [E_required]
      | Null \<Rightarrow> Inl [E_null]
      | Given s \<Rightarrow>
          if s = [] \<or> (trim_whitespace \<and> strip s = []) then
            (if allow_blank then Inr [] else Inl [E_blank])
          else
            (let v = (if trim_whitespace then strip s else s) in
             run_validators
               (max_length_check max_length v @ [(0 \<notin> set v, E_null_characters)]
                  @ surrogate_check v @ extra v) v))"

definition EmailField :: "env \<Rightarrow> ustring supplied \<Rightarrow> ErrorDetail list + ustring" where
  "EmailField e data =
     CharField False True None (\<lambda>v. [(EmailValidator e v, E_invalid_email)]) data"

fun field_errors ::
  "(string \<times> (ErrorDetail list + 'a)) list \<Rightarrow> (string \<times> ErrorDetail list) list" where
  "field_errors [] = []"
| "field_errors ((name, Inl errs) # fs) = (name, errs) # field_errors fs"
| "field_errors ((name, Inr v) # fs) = field_errors fs"

section \<open>Registration: \<^verbatim>\<open>user_auth_app/api/serializers.py\<close>, \<^verbatim>\<open>user_auth_app/api/views.py\<close>\<close>

record registration_request =
  req_username :: "ustring supplied"
  req_email :: "ustring supplied"
  req_password :: "ustring supplied"
  req_repeated_password :: "ustring supplied"

record validated_data =
  v_username :: ustring
  v_email :: ustring
  v_password :: ustring
  v_repeated_password :: ustring

text \<open>
  \<^verbatim>\<open>RegistrationSerializer\<close> declares \<^verbatim>\<open>email = EmailField(required=True)\<close>,
  \<^verbatim>\<open>repeated_password = CharField(write_only=True)\<close>,
  \<^verbatim>\<open>username = CharField(write_only=True, allow_blank=False)\<close>; \<^verbatim>\<open>password\<close> is the
  model's field of at most 128 characters; \<^verbatim>\<open>id\<close> is read-only.
\<close>

definition RegistrationSerializer_is_valid ::
  "env \<Rightarrow> registration_request \<Rightarrow> (string \<times> ErrorDetail list) list + validated_data" where
  "RegistrationSerializer_is_valid e r =
     (let username = CharField False True None (\<lambda>v. []) (req_username r);
          email = EmailField e (req_email r);
          password = CharField False True (Some 128) (\<lambda>v. []) (req_password r);
          repeated_password = CharField False True None (\<lambda>v. []) (req_repeated_password r)
      in case (username, email, password, repeated_password) of
           (Inr u, Inr m, Inr p, Inr rp) \<Rightarrow>
             Inr \<lparr>v_username = u, v_email = m, v_password = p, v_repeated_password = rp\<rparr>
         | _ \<Rightarrow>
             Inl (field_errors [(''username'', username), (''email'', email),
                    (''password'', password), (''repeated_password'', repeated_password)]))"

text \<open>
  \<^verbatim>\<open>RegistrationSerializer.create\<close>. A raised \<^verbatim>\<open>ValidationError\<close> is the \<open>Inl\<close> of its
  detail; \<^verbatim>\<open>account.save()\<close> and \<^verbatim>\<open>UserProfile.objects.create(user=account)\<close> append a
  row each. The profile is created from the user alone: its own \<^verbatim>\<open>email\<close> column takes
  the column default, the empty string.
\<close>

definition RegistrationSerializer_create ::
  "case_tables \<Rightarrow> nat \<Rightarrow> store \<Rightarrow> validated_data
     \<Rightarrow> (string \<times> string) list + (User \<times> store)" where
  "RegistrationSerializer_create U t st validated =
     (let pw = v_password validated;
          repeated_pw = v_repeated_password validated;
          username = title U (v_username validated)
      in if pw \<noteq> repeated_pw then Inl [(''error'', ''Passwords do not match'')]
         else if list_ex (\<lambda>u. User_email u = v_email validated) (users st)
           then Inl [(''error'', ''This email is already taken'')]
         else if list_ex (\<lambda>u. User_username u = username) (users st)
           then Inl [(''error'', ''This username is already taken'')]
         else
           (let names = split username;
                first_name = (if length names > 0 then names ! 0 else []);
                last_name = (if length names > 1 then join (ustr '' '') (drop 1 names) else []);
                account = \<lparr>User_id = user_seq st, User_username = username,
                             User_email = v_email validated, User_password = make_password pw,
                             User_first_name = first_name, User_last_name = last_name,
                             User_is_active = True\<rparr>;
                st1 = st\<lparr>users := users st @ [account], user_seq := Suc (user_seq st)\<rparr>;
                profile = \<lparr>UserProfile_id = profile_seq st1, UserProfile_user = User_id account,
                             UserProfile_email = [], UserProfile_tel = None,
                             UserProfile_file = None, UserProfile_created_at = t\<rparr>;
                st2 = st1\<lparr>profiles := profiles st1 @ [profile],
                           profile_seq := Suc (profile_seq st1)\<rparr>
            in Inr (account, st2)))"

text \<open>
  \<^verbatim>\<open>Token.objects.get_or_create(user=...)\<close>: the user's token if there is one (the
  relation is one-to-one), else a new row with a fresh random key. A key that is already
  a primary key makes the insert fail (\<open>None\<close>).
\<close>

definition Token_get_or_create :: "env \<Rightarrow> store \<Rightarrow> nat \<Rightarrow> (Token \<times> store) option" where
  "Token_get_or_create e st uid =
     (case find (\<lambda>t. Token_user t = uid) (tokens st) of
        Some t \<Rightarrow> Some (t, st)
      | None \<Rightarrow>
          if list_ex (\<lambda>t. Token_key t = generate_key e) (tokens st) then None
          else (let t = \<lparr>Token_key = generate_key e, Token_user = uid, Token_created = now e\<rparr>
                in Some (t, st\<lparr>tokens := tokens st @ [t]\<rparr>)))"

definition display_name :: "User \<Rightarrow> ustring" where
  "display_name u = strip (User_first_name u @ ustr '' '' @ User_last_name u)"

definition account_response :: "nat \<Rightarrow> Token \<Rightarrow> User \<Rightarrow> response" where
  "account_response code token u =
     \<lparr>status = code,
      body = Account \<lparr>data_token = Token_key token, data_username = display_name u,
                      data_email = User_email u, data_user_id = User_id u\<rparr>\<rparr>"

definition server_error :: response where
  "server_error = \<lparr>status = 500, body = NoContent\<rparr>"

text \<open>
  \<^verbatim>\<open>RegistrationView.post\<close>. The \<^verbatim>\<open>ValidationError\<close> that \<^verbatim>\<open>create\<close> raises inside
  \<^verbatim>\<open>serializer.save()\<close> leaves the view as a 400 response carrying its detail.
\<close>

definition RegistrationView_post ::
  "case_tables \<Rightarrow> env \<Rightarrow> store \<Rightarrow> registration_request \<Rightarrow> response \<times> store" where
  "RegistrationView_post U e st request =
     (case RegistrationSerializer_is_valid e request of
        Inl errors \<Rightarrow> (\<lparr>status = 400, body = Errors errors\<rparr>, st)
      | Inr validated \<Rightarrow>
          (case RegistrationSerializer_create U (now e) st validated of
             Inl detail \<Rightarrow> (\<lparr>status = 400, body = Detail detail\<rparr>, st)
           | Inr (saved_account, st') \<Rightarrow>
               (case Token_get_or_create e st' (User_id saved_account) of
                  None \<Rightarrow> (server_error, st')
                | Some (token, st'') \<Rightarrow> (account_response 201 token saved_account, st''))))"

section \<open>Login: \<^verbatim>\<open>UsernameAuthTokenSerializer\<close>, \<^verbatim>\<open>CustomLogInView\<close>\<close>

record login_request =
  login_username :: "ustring supplied"
  login_password :: "ustring supplied"

text \<open>\<^verbatim>\<open>request.data.get(key)\<close>: a missing key reads as \<^verbatim>\<open>None\<close>.\<close>

definition dict_get :: "'a supplied \<Rightarrow> 'a supplied" where
  "dict_get x = (case x of Omitted \<Rightarrow> Null | Null \<Rightarrow> Null | Given v \<Rightarrow> Given v)"

text \<open>
  \<^verbatim>\<open>django.contrib.auth.authenticate\<close> with the model backend: the user of that exact
  username (unique), if the password verifies and the user is active.
\<close>

definition authenticate :: "store \<Rightarrow> ustring \<Rightarrow> ustring \<Rightarrow> User option" where
  "authenticate st username password =
     (case find (\<lambda>u. User_username u = username) (users st) of
        None \<Rightarrow> None
      | Some u \<Rightarrow> if check_password password (User_password u) \<and> User_is_active u
                  then Some u else None)"

definition UsernameAuthTokenSerializer_validate ::
  "store \<Rightarrow> ustring \<Rightarrow> ustring \<Rightarrow> ErrorDetail list + User" where
  "UsernameAuthTokenSerializer_validate st username password =
     (if username = [] \<or> password = [] then Inl [E_message ''Must include 'username' and 'password'.'']
      else case authenticate st username password of
             None \<Rightarrow> Inl [E_message ''Invalid username or password.'']
           | Some user \<Rightarrow> Inr user)"

text \<open>
  The fields are \<^verbatim>\<open>username = CharField(...)\<close> and
  \<^verbatim>\<open>password = CharField(..., trim_whitespace=False)\<close>; \<^verbatim>\<open>validate\<close> runs when both pass.
\<close>

definition UsernameAuthTokenSerializer_is_valid ::
  "store \<Rightarrow> login_request \<Rightarrow> (string \<times> ErrorDetail list) list + User" where
  "UsernameAuthTokenSerializer_is_valid st r =
     (let username = CharField False True None (\<lambda>v. []) (dict_get (login_username r));
          password = CharField False False None (\<lambda>v. []) (dict_get (login_password r))
      in case (username, password) of
           (Inr u, Inr p) \<Rightarrow>
             (case UsernameAuthTokenSerializer_validate st u p of
                Inl errs \<Rightarrow> Inl [(''non_field_errors'', errs)]
              | Inr user \<Rightarrow> Inr user)
         | _ \<Rightarrow> Inl (field_errors [(''username'', username), (''password'', password)]))"

definition CustomLogInView_post :: "env \<Rightarrow> store \<Rightarrow> login_request \<Rightarrow> response \<times> store" where
  "CustomLogInView_post e st request =
     (case UsernameAuthTokenSerializer_is_valid st request of
        Inr user \<Rightarrow>
          (case Token_get_or_create e st (User_id user) of
             None \<Rightarrow> (server_error, st)
           | Some (token, st') \<Rightarrow> (account_response 200 token user, st'))
      | Inl errors \<Rightarrow>
          (\<lparr>status = 400, body = Detail [(''error'', ''Invalid username or password'')]\<rparr>, st))"

section \<open>Deletion: the \<^verbatim>\<open>on_delete\<close> rules of \<^verbatim>\<open>messenger_app/models.py\<close>\<close>

datatype on_delete = CASCADE | SET_NULL

definition Message_chat_on_delete :: on_delete where
  "Message_chat_on_delete = SET_NULL"

definition Message_author_on_delete :: on_delete where
  "Message_author_on_delete = SET_NULL"

definition Post_chat_on_delete :: on_delete where
  "Post_chat_on_delete = CASCADE"

definition Post_author_on_delete :: on_delete where
  "Post_author_on_delete = CASCADE"

definition UserProfile_user_on_delete :: on_delete where
  "UserProfile_user_on_delete = CASCADE"

definition Token_user_on_delete :: on_delete where
  "Token_user_on_delete = CASCADE"

text \<open>
  What deleting the row of key \<open>pk\<close> does to a table whose foreign key \<open>fk\<close> has the given
  rule: under \<^verbatim>\<open>CASCADE\<close> the referring rows are deleted, under \<^verbatim>\<open>SET_NULL\<close> they stay
  with the reference set to null.
\<close>

definition collect ::
  "on_delete \<Rightarrow> ('r \<Rightarrow> nat option) \<Rightarrow> ('r \<Rightarrow> 'r) \<Rightarrow> nat \<Rightarrow> 'r list \<Rightarrow> 'r list" where
  "collect rule fk set_null pk rows =
     (case rule of
        CASCADE \<Rightarrow> filter (\<lambda>r. fk r \<noteq> Some pk) rows
      | SET_NULL \<Rightarrow> map (\<lambda>r. if fk r = Some pk then set_null r else r) rows)"

definition Chat_delete :: "store \<Rightarrow> nat \<Rightarrow> store" where
  "Chat_delete st pk =
     st\<lparr>chats := filter (\<lambda>c. Chat_id c \<noteq> pk) (chats st),
        chat_members := filter (\<lambda>cm. fst cm \<noteq> pk) (chat_members st),
        posts := collect Post_chat_on_delete Post_chat (\<lambda>p. p\<lparr>Post_chat := None\<rparr>) pk (posts st),
        messages := collect Message_chat_on_delete Message_chat
                      (\<lambda>m. m\<lparr>Message_chat := None\<rparr>) pk (messages st)\<rparr>"

definition User_delete :: "store \<Rightarrow> nat \<Rightarrow> store" where
  "User_delete st pk =
     st\<lparr>users := filter (\<lambda>u. User_id u \<noteq> pk) (users st),
        profiles := collect UserProfile_user_on_delete (\<lambda>p. Some (UserProfile_user p))
                      (\<lambda>p. p) pk (profiles st),
        tokens := collect Token_user_on_delete (\<lambda>t. Some (Token_user t)) (\<lambda>t. t) pk (tokens st),
        chat_members := filter (\<lambda>cm. snd cm \<noteq> pk) (chat_members st),
        posts := collect Post_author_on_delete (\<lambda>p. Some (Post_author p)) (\<lambda>p. p) pk (posts st),
        messages := collect Message_author_on_delete Message_author
                      (\<lambda>m. m\<lparr>Message_author := None\<rparr>) pk (messages st)\<rparr>"

section \<open>Serializers of \<^verbatim>\<open>messenger_app/api/serializers.py\<close>\<close>

text \<open>
  A \<^verbatim>\<open>Meta\<close> option is unset, a string, or a list or tuple of names.
  \<^verbatim>\<open>ModelSerializer.get_field_names\<close> accepts for \<^verbatim>\<open>fields\<close> a list, a tuple or the
  string \<^verbatim>\<open>'__all__'\<close>, and for \<^verbatim>\<open>exclude\<close> a list or a tuple; anything else raises
  \<^verbatim>\<open>TypeError\<close>.
\<close>

datatype meta_option = Unset | Str string | Seq "string list"

datatype py_error = TypeError string | AssertionError

definition truthy :: "meta_option \<Rightarrow> bool" where
  "truthy opt = (case opt of Unset \<Rightarrow> False | Str s \<Rightarrow> s \<noteq> [] | Seq names \<Rightarrow> names \<noteq> [])"

definition is_list_or_tuple :: "meta_option \<Rightarrow> bool" where
  "is_list_or_tuple opt = (case opt of Seq names \<Rightarrow> True | _ \<Rightarrow> False)"

definition ALL_FIELDS :: string where
  "ALL_FIELDS = ''__all__''"

definition get_field_names ::
  "meta_option \<Rightarrow> meta_option \<Rightarrow> string list \<Rightarrow> py_error + string list" where
  "get_field_names meta_fields meta_exclude model_fields =
     (if truthy meta_fields \<and> meta_fields \<noteq> Str ALL_FIELDS \<and> \<not> is_list_or_tuple meta_fields then
        Inl (TypeError (''The `fields` option must be a list or tuple or '' @ [CHR 0x22]
               @ ''__all__'' @ [CHR 0x22] @ ''. Got str.''))
      else if truthy meta_exclude \<and> \<not> is_list_or_tuple meta_exclude then
        Inl (TypeError ''The `exclude` option must be a list or tuple. Got str.'')
      else if truthy meta_fields \<and> truthy meta_exclude then Inl AssertionError
      else if meta_fields = Unset \<and> meta_exclude = Unset then Inl AssertionError
      else (case (if meta_fields = Str ALL_FIELDS then Unset else meta_fields) of
              Seq names \<Rightarrow> Inr names
            | Str s \<Rightarrow> Inr []
            | Unset \<Rightarrow> (case meta_exclude of
                      Seq excluded \<Rightarrow>
                        if list_ex (\<lambda>f. f \<notin> set model_fields) excluded then Inl AssertionError
                        else Inr (filter (\<lambda>f. f \<notin> set excluded) model_fields)
                    | _ \<Rightarrow> Inr model_fields)))"

subsection \<open>\<^verbatim>\<open>ChatSerializer\<close>\<close>

text \<open>
  \<^verbatim>\<open>exclude = ("id")\<close> is the string \<^verbatim>\<open>"id"\<close> in parentheses, not a tuple;
  \<^verbatim>\<open>read_only_fields = ["author"]\<close> names no field of \<^verbatim>\<open>Chat\<close>.
\<close>

definition ChatSerializer_Meta_exclude :: meta_option where
  "ChatSerializer_Meta_exclude = Str ''id''"

definition ChatSerializer_Meta_read_only_fields :: "string list" where
  "ChatSerializer_Meta_read_only_fields = [''author'']"

definition Chat_fields :: "string list" where
  "Chat_fields = [''id'', ''title'', ''members'']"

datatype json = JNull | JNat nat | JStr ustring | JList "nat list"

record chat_payload =
  in_chat_id :: "nat supplied"
  in_chat_title :: "ustring supplied"
  in_chat_members :: "nat list supplied"

definition Chat_members :: "store \<Rightarrow> nat \<Rightarrow> nat list" where
  "Chat_members st pk = map snd (filter (\<lambda>cm. fst cm = pk) (chat_members st))"

definition Chat_field_value :: "store \<Rightarrow> Chat \<Rightarrow> string \<Rightarrow> json" where
  "Chat_field_value st c name =
     (if name = ''id'' then JNat (Chat_id c)
      else if name = ''title'' then JStr (Chat_title c)
      else if name = ''members'' then JList (Chat_members st (Chat_id c))
      else JNull)"

text \<open>
  \<^verbatim>\<open>serializer.data\<close> of an instance, for a serializer whose \<^verbatim>\<open>Meta.exclude\<close> is the
  argument: one member per field name.
\<close>

definition Chat_representation ::
  "meta_option \<Rightarrow> store \<Rightarrow> Chat \<Rightarrow> py_error + (string \<times> json) list" where
  "Chat_representation exclude st c =
     (case get_field_names Unset exclude Chat_fields of
        Inl err \<Rightarrow> Inl err
      | Inr names \<Rightarrow> Inr (map (\<lambda>name. (name, Chat_field_value st c name)) names))"

definition members_field :: "store \<Rightarrow> nat list supplied \<Rightarrow> ErrorDetail list + nat list option" where
  "members_field st data =
     (case data of
        Omitted \<Rightarrow> Inr None
      | Null \<Rightarrow> Inl [E_null]
      | Given pks \<Rightarrow>
          (case filter (\<lambda>pk. \<not> list_ex (\<lambda>u. User_id u = pk) (users st)) pks of
             [] \<Rightarrow> Inr (Some pks)
           | pk # rest \<Rightarrow> Inl [E_does_not_exist pk]))"

text \<open>
  \<^verbatim>\<open>is_valid()\<close> followed by \<^verbatim>\<open>save()\<close> on a payload: the writable fields are the
  serializer's fields without the auto-increment key, which is read-only wherever it is a
  field. The new row takes the next key of the sequence.
\<close>

definition Chat_create ::
  "meta_option \<Rightarrow> store \<Rightarrow> chat_payload
     \<Rightarrow> py_error + ((string \<times> ErrorDetail list) list + (Chat \<times> store))" where
  "Chat_create exclude st payload =
     (case get_field_names Unset exclude Chat_fields of
        Inl err \<Rightarrow> Inl err
      | Inr names \<Rightarrow>
          (let title = (if ''title'' \<in> set names
                        then map_sum id Some
                               (CharField False True (Some 100) (\<lambda>v. []) (in_chat_title payload))
                        else Inr None);
               members = (if ''members'' \<in> set names
                          then members_field st (in_chat_members payload) else Inr None)
           in case (title, members) of
                (Inr t, Inr ms) \<Rightarrow>
                  (let c = \<lparr>Chat_id = chat_seq st,
                            Chat_title = (case t of None \<Rightarrow> [] | Some v \<Rightarrow> v)\<rparr>
                   in Inr (Inr (c, st\<lparr>chats := chats st @ [c],
                          chat_members := chat_members st
                             @ map (\<lambda>u. (Chat_id c, u)) (case ms of None \<Rightarrow> [] | Some l \<Rightarrow> l),
                          chat_seq := Suc (chat_seq st)\<rparr>)))
              | _ \<Rightarrow> Inr (Inl (field_errors [(''title'', map_sum id (\<lambda>v. ()) title),
                                               (''members'', map_sum id (\<lambda>v. ()) members)]))))"

definition ChatSerializer_data :: "store \<Rightarrow> Chat \<Rightarrow> py_error + (string \<times> json) list" where
  "ChatSerializer_data st c = Chat_representation ChatSerializer_Meta_exclude st c"

definition ChatSerializer_save ::
  "store \<Rightarrow> chat_payload \<Rightarrow> py_error + ((string \<times> ErrorDetail list) list + (Chat \<times> store))" where
  "ChatSerializer_save st payload = Chat_create ChatSerializer_Meta_exclude st payload"

subsection \<open>\<^verbatim>\<open>PostSerializer\<close>\<close>

definition PostSerializer_Meta_fields :: meta_option where
  "PostSerializer_Meta_fields = Str ''__all__''"

definition PostSerializer_Meta_read_only_fields :: "string list" where
  "PostSerializer_Meta_read_only_fields = [''author'']"

definition Post_fields :: "string list" where
  "Post_fields = [''id'', ''chat'', ''author'', ''title'', ''content'', ''created_at'']"

text \<open>
  Model fields that are not editable, which a model serializer makes read-only: the
  auto-increment key and the \<^verbatim>\<open>auto_now_add\<close> timestamp.
\<close>

definition Post_not_editable :: "string list" where
  "Post_not_editable = [''id'', ''created_at'']"

definition PostSerializer_writable :: "string \<Rightarrow> bool" where
  "PostSerializer_writable name =
     (case get_field_names PostSerializer_Meta_fields Unset Post_fields of
        Inl err \<Rightarrow> False
      | Inr names \<Rightarrow> name \<in> set names
          \<and> name \<notin> set PostSerializer_Meta_read_only_fields
          \<and> name \<notin> set Post_not_editable)"

record post_payload =
  in_id :: "nat supplied"
  in_chat :: "nat supplied"
  in_author :: "nat supplied"
  in_title :: "ustring supplied"
  in_content :: "ustring supplied"
  in_created_at :: "nat supplied"

text \<open>\<^verbatim>\<open>validated_data\<close>: a member is present (\<open>Some\<close>) or not.\<close>

record post_attrs =
  attrs_chat :: "nat option option"
  attrs_author :: "nat option"
  attrs_title :: "ustring option"
  attrs_content :: "ustring option"
  attrs_created_at :: "nat option"

text \<open>
  A field that is not writable takes no input. A required field that the payload omits is
  an error, except in a partial update, where it is skipped.
\<close>

definition field_input :: "string \<Rightarrow> bool \<Rightarrow> bool \<Rightarrow> 'a supplied
     \<Rightarrow> ('a supplied \<Rightarrow> ErrorDetail list + 'b) \<Rightarrow> ErrorDetail list + 'b option" where
  "field_input name required partial data validate =
     (if \<not> PostSerializer_writable name then Inr None
      else case data of
             Omitted \<Rightarrow> if partial \<or> \<not> required then Inr None else Inl [E_required]
           | _ \<Rightarrow> map_sum id Some (validate data))"

text \<open>
  A foreign key is a primary-key field over the rows of the referred table; \<^verbatim>\<open>chat\<close> is
  declared \<^verbatim>\<open>null=True, blank=True\<close>, so it may be omitted or null.
\<close>

definition PrimaryKeyRelatedField ::
  "nat list \<Rightarrow> bool \<Rightarrow> nat supplied \<Rightarrow> ErrorDetail list + nat option" where
  "PrimaryKeyRelatedField queryset allow_null data =
     (case data of
        Omitted \<Rightarrow> Inl [E_required]
      | Null \<Rightarrow> if allow_null then Inr None else Inl [E_null]
      | Given pk \<Rightarrow> if pk \<in> set queryset then Inr (Some pk) else Inl [E_does_not_exist pk])"

definition the_pk :: "ErrorDetail list + nat option \<Rightarrow> ErrorDetail list + nat" where
  "the_pk r = (case r of Inl errs \<Rightarrow> Inl errs | Inr None \<Rightarrow> Inl [E_null] | Inr (Some pk) \<Rightarrow> Inr pk)"

definition PostSerializer_is_valid ::
  "bool \<Rightarrow> store \<Rightarrow> post_payload \<Rightarrow> (string \<times> ErrorDetail list) list + post_attrs" where
  "PostSerializer_is_valid partial st payload =
     (let chat = field_input ''chat'' False partial (in_chat payload)
                   (PrimaryKeyRelatedField (map Chat_id (chats st)) True);
          author = field_input ''author'' True partial (in_author payload)
                     (\<lambda>d. the_pk (PrimaryKeyRelatedField (map User_id (users st)) False d));
          title = field_input ''title'' True partial (in_title payload)
                    (CharField False True (Some 200) (\<lambda>v. []));
          content = field_input ''content'' True partial (in_content payload)
                      (CharField False True None (\<lambda>v. []));
          created_at = field_input ''created_at'' True partial (in_created_at payload)
                         (\<lambda>d. case d of Given t \<Rightarrow> Inr t | _ \<Rightarrow> Inl [E_null])
      in case (chat, author, title, content, created_at) of
           (Inr c, Inr a, Inr t, Inr b, Inr ca) \<Rightarrow>
             Inr \<lparr>attrs_chat = c, attrs_author = a, attrs_title = t, attrs_content = b,
                  attrs_created_at = ca\<rparr>
         | _ \<Rightarrow>
             Inl (field_errors [(''chat'', map_sum id (\<lambda>v. ()) chat),
                    (''author'', map_sum id (\<lambda>v. ()) author),
                    (''title'', map_sum id (\<lambda>v. ()) title),
                    (''content'', map_sum id (\<lambda>v. ()) content),
                    (''created_at'', map_sum id (\<lambda>v. ()) created_at)]))"

text \<open>
  \<^verbatim>\<open>serializer.save(author=...)\<close> without an instance: the keyword arguments of
  \<^verbatim>\<open>save\<close> override the validated data, a column without a value takes its default, and
  \<^verbatim>\<open>created_at\<close> is the time of the insert whatever was passed.
\<close>

definition PostSerializer_create :: "env \<Rightarrow> store \<Rightarrow> post_attrs \<Rightarrow> nat \<Rightarrow> Post \<times> store" where
  "PostSerializer_create e st attrs author =
     (let p = \<lparr>Post_id = post_seq st,
               Post_chat = (case attrs_chat attrs of None \<Rightarrow> None | Some c \<Rightarrow> c),
               Post_author = author,
               Post_title = (case attrs_title attrs of None \<Rightarrow> [] | Some t \<Rightarrow> t),
               Post_content = (case attrs_content attrs of None \<Rightarrow> [] | Some b \<Rightarrow> b),
               Post_created_at = now e\<rparr>
      in (p, st\<lparr>posts := posts st @ [p], post_seq := Suc (post_seq st)\<rparr>))"

text \<open>
  \<^verbatim>\<open>serializer.save()\<close> with an instance: every member of the validated data is set on
  the instance, and the instance is written to its row.
\<close>

definition PostSerializer_update :: "store \<Rightarrow> Post \<Rightarrow> post_attrs \<Rightarrow> Post \<times> store" where
  "PostSerializer_update st instance attrs =
     (let p = instance\<lparr>
               Post_chat := (case attrs_chat attrs of None \<Rightarrow> Post_chat instance | Some c \<Rightarrow> c),
               Post_author := (case attrs_author attrs of None \<Rightarrow> Post_author instance | Some a \<Rightarrow> a),
               Post_title := (case attrs_title attrs of None \<Rightarrow> Post_title instance | Some t \<Rightarrow> t),
               Post_content := (case attrs_content attrs of None \<Rightarrow> Post_content instance | Some b \<Rightarrow> b),
               Post_created_at :=
                 (case attrs_created_at attrs of None \<Rightarrow> Post_created_at instance | Some t \<Rightarrow> t)\<rparr>
      in (p, st\<lparr>posts := map (\<lambda>row. if Post_id row = Post_id p then p else row) (posts st)\<rparr>))"

section \<open>\<^verbatim>\<open>PostViewSet\<close> of \<^verbatim>\<open>messenger_app/api/views.py\<close>\<close>

datatype action =
    GET_list
  | GET_retrieve nat
  | POST_create post_payload
  | PUT_update nat post_payload
  | PATCH_partial_update nat post_payload
  | DELETE_destroy nat

text \<open>The identity the request was resolved to, if any, and the action routed to.\<close>

record request =
  request_user :: "nat option"
  request_action :: action

definition get_object :: "store \<Rightarrow> nat \<Rightarrow> Post option" where
  "get_object st pk = find (\<lambda>p. Post_id p = pk) (posts st)"

definition not_found :: response where
  "not_found = \<lparr>status = 404, body = Detail [(''detail'', ''Not found.'')]\<rparr>"

definition bad_request :: "(string \<times> ErrorDetail list) list \<Rightarrow> response" where
  "bad_request errors = \<lparr>status = 400, body = Errors errors\<rparr>"

text \<open>\<^verbatim>\<open>perform_create\<close>: \<^verbatim>\<open>serializer.save(author=self.request.user)\<close>.\<close>

definition PostViewSet_perform_create :: "env \<Rightarrow> store \<Rightarrow> nat \<Rightarrow> post_attrs \<Rightarrow> Post \<times> store" where
  "PostViewSet_perform_create e st user attrs = PostSerializer_create e st attrs user"

text \<open>
  \<^verbatim>\<open>CreateModelMixin.create\<close>: validation, then \<^verbatim>\<open>perform_create\<close>. Assigning the
  anonymous user to \<^verbatim>\<open>author\<close> raises.
\<close>

definition PostViewSet_create ::
  "env \<Rightarrow> store \<Rightarrow> nat option \<Rightarrow> post_payload \<Rightarrow> response \<times> store" where
  "PostViewSet_create e st user payload =
     (case PostSerializer_is_valid False st payload of
        Inl errors \<Rightarrow> (bad_request errors, st)
      | Inr attrs \<Rightarrow>
          (case user of
             None \<Rightarrow> (server_error, st)
           | Some u \<Rightarrow>
               (let (p, st') = PostViewSet_perform_create e st u attrs
                in (\<lparr>status = 201, body = PostData p\<rparr>, st'))))"

text \<open>
  \<^verbatim>\<open>UpdateModelMixin.update\<close>: the instance is looked up first (404), then the payload
  is validated (400), then saved.
\<close>

definition PostViewSet_update :: "bool \<Rightarrow> store \<Rightarrow> nat \<Rightarrow> post_payload \<Rightarrow> response \<times> store" where
  "PostViewSet_update partial st pk payload =
     (case get_object st pk of
        None \<Rightarrow> (not_found, st)
      | Some instance \<Rightarrow>
          (case PostSerializer_is_valid partial st payload of
             Inl errors \<Rightarrow> (bad_request errors, st)
           | Inr attrs \<Rightarrow>
               (let (p, st') = PostSerializer_update st instance attrs
                in (\<lparr>status = 200, body = PostData p\<rparr>, st'))))"

definition PostViewSet_retrieve :: "store \<Rightarrow> nat \<Rightarrow> response \<times> store" where
  "PostViewSet_retrieve st pk =
     (case get_object st pk of
        None \<Rightarrow> (not_found, st)
      | Some instance \<Rightarrow> (\<lparr>status = 200, body = PostData instance\<rparr>, st))"

definition PostViewSet_destroy :: "store \<Rightarrow> nat \<Rightarrow> response \<times> store" where
  "PostViewSet_destroy st pk =
     (case get_object st pk of
        None \<Rightarrow> (not_found, st)
      | Some instance \<Rightarrow>
          (\<lparr>status = 204, body = NoContent\<rparr>,
           st\<lparr>posts := filter (\<lambda>row. Post_id row \<noteq> Post_id instance) (posts st)\<rparr>))"

text \<open>
  Modelled from the spec: the project's settings module, which sets the default permission
  and authentication classes of every view, is not among the sources, and \<^verbatim>\<open>PostViewSet\<close>
  declares none of its own. The specification requires authentication on every Post
  endpoint, "else 401".
\<close>

definition has_permission :: "nat option \<Rightarrow> bool" where
  "has_permission user = (user \<noteq> None)"

text \<open>
  Modelled from the spec: the answer to a request that fails that check, status 401.
\<close>

definition not_authenticated :: response where
  "not_authenticated =
     \<lparr>status = 401,
      body = Detail [(''detail'', ''Authentication credentials were not provided.'')]\<rparr>"

definition PostViewSet_dispatch :: "env \<Rightarrow> store \<Rightarrow> request \<Rightarrow> response \<times> store" where
  "PostViewSet_dispatch e st rq =
     (if \<not> has_permission (request_user rq) then (not_authenticated, st)
      else (case request_action rq of
              GET_list \<Rightarrow> (\<lparr>status = 200, body = PostList (posts st)\<rparr>, st)
            | GET_retrieve pk \<Rightarrow> PostViewSet_retrieve st pk
            | POST_create payload \<Rightarrow> PostViewSet_create e st (request_user rq) payload
            | PUT_update pk payload \<Rightarrow> PostViewSet_update False st pk payload
            | PATCH_partial_update pk payload \<Rightarrow> PostViewSet_update True st pk payload
            | DELETE_destroy pk \<Rightarrow> PostViewSet_destroy st pk))"

section \<open>Integrity of the store\<close>

text \<open>
  What the database guarantees and the counts below rely on: a stored user's primary key
  was drawn from the sequence, and a profile's \<^verbatim>\<open>user\<close> is the key of a stored user.
\<close>

definition store_ok :: "store \<Rightarrow> bool" where
  "store_ok st =
     ((\<forall>u\<in>set (users st). User_id u < user_seq st)
      \<and> (\<forall>p\<in>set (profiles st). \<exists>u\<in>set (users st). User_id u = UserProfile_user p))"

text \<open>
  The query \<^verbatim>\<open>UserProfile.objects.filter(user__email=...)\<close> of the registration test:
  the profiles whose user has that email.
\<close>

definition profiles_by_user_email :: "store \<Rightarrow> ustring \<Rightarrow> UserProfile list" where
  "profiles_by_user_email st m =
     filter (\<lambda>p. \<exists>u\<in>set (users st). User_id u = UserProfile_user p \<and> User_email u = m)
       (profiles st)"

section \<open>Operations on the store and the states they reach\<close>

text \<open>
  The requests the repository routes (registration, login, the Post endpoints) and the
  deletion of a Chat or a User. No routed request creates a Chat.
\<close>

datatype operation =
    Register env registration_request
  | Login env login_request
  | PostRequest env request
  | DeleteChat nat
  | DeleteUser nat

fun apply_operation :: "case_tables \<Rightarrow> store \<Rightarrow> operation \<Rightarrow> store" where
  "apply_operation U st (Register e r) = snd (RegistrationView_post U e st r)"
| "apply_operation U st (Login e r) = snd (CustomLogInView_post e st r)"
| "apply_operation U st (PostRequest e rq) = snd (PostViewSet_dispatch e st rq)"
| "apply_operation U st (DeleteChat pk) = Chat_delete st pk"
| "apply_operation U st (DeleteUser pk) = User_delete st pk"

inductive reachable_from :: "case_tables \<Rightarrow> store \<Rightarrow> store \<Rightarrow> bool"
  for U :: case_tables and st0 :: store where
  start: "reachable_from U st0 st0"
| step: "reachable_from U st0 st \<Longrightarrow> reachable_from U st0 (apply_operation U st opn)"

text \<open>
  The invariant: no Post has an empty title, no User has an empty username or an empty
  email, and no two Users share a username or an email.
\<close>

definition store_invariant :: "store \<Rightarrow> bool" where
  "store_invariant st =
     ((\<forall>p\<in>set (posts st). Post_title p \<noteq> [])
      \<and> (\<forall>u\<in>set (users st). User_username u \<noteq> [] \<and> User_email u \<noteq> [])
      \<and> distinct (map User_username (users st))
      \<and> distinct (map User_email (users st)))"

section \<open>Sample data\<close>

text \<open>
  Case tables that agree with the Unicode database on the ASCII code points and leave
  every other code point as it is, for evaluating the model on ASCII input.
\<close>

definition ascii_tables :: case_tables where
  "ascii_tables =
     \<lparr>IsCased = (\<lambda>c. (0x41 \<le> c \<and> c \<le> 0x5A) \<or> (0x61 \<le> c \<and> c \<le> 0x7A)),
      IsCaseIgnorable = (\<lambda>c. c = 0x27 \<or> c = 0x2E \<or> c = 0x3A \<or> c = 0x5E \<or> c = 0x60),
      ToTitleFull = (\<lambda>c. [if 0x61 \<le> c \<and> c \<le> 0x7A then c - 0x20 else c]),
      ToLowerFull = (\<lambda>c. [if 0x41 \<le> c \<and> c \<le> 0x5A then c + 0x20 else c])\<rparr>"

definition sample_env :: env where
  "sample_env = \<lparr>now = 5, generate_key = ''9944b09199c62bcf'',
     EmailValidator = (\<lambda>s. 0x40 \<in> set s)\<rparr>"

definition later_env :: env where
  "later_env = \<lparr>now = 6, generate_key = ''5a8f3c01d2e4b677'',
     EmailValidator = (\<lambda>s. 0x40 \<in> set s)\<rparr>"

definition alice :: registration_request where
  "alice = \<lparr>req_username = Given (ustr ''alice''), req_email = Given (ustr ''a@x.com''),
     req_password = Given (ustr ''p1''), req_repeated_password = Given (ustr ''p1'')\<rparr>"

definition bob :: registration_request where
  "bob = \<lparr>req_username = Given (ustr ''  bOB  van dYKE ''), req_email = Given (ustr ''b@x.com ''),
     req_password = Given (ustr '' s3cret''), req_repeated_password = Given (ustr ''s3cret '')\<rparr>"

text \<open>
  Case tables that hold, beside the ASCII rows, the rows of the Unicode database for
  \<open>U+00C9\<close> and \<open>U+00E9\<close> (the letter e with acute, capital and small) and for \<open>U+00DF\<close>
  (the sharp s, whose title-case mapping is the two letters \<^verbatim>\<open>Ss\<close>), and a registration
  whose username has them: a no-break space, the small e with acute, \<^verbatim>\<open>mILE\<close>, an em space,
  \<^verbatim>\<open>zola\<close> and a next-line character.
\<close>

definition latin_tables :: case_tables where
  "latin_tables =
     \<lparr>IsCased = (\<lambda>c. IsCased ascii_tables c \<or> c = 0xC9 \<or> c = 0xDF \<or> c = 0xE9),
      IsCaseIgnorable = IsCaseIgnorable ascii_tables,
      ToTitleFull = (\<lambda>c. if c = 0xE9 then [0xC9] else if c = 0xDF then [0x53, 0x73]
                          else ToTitleFull ascii_tables c),
      ToLowerFull = (\<lambda>c. if c = 0xC9 then [0xE9] else ToLowerFull ascii_tables c)\<rparr>"

definition emile :: registration_request where
  "emile =
     \<lparr>req_username = Given ([0xA0, 0xE9] @ ustr ''mILE'' @ [0x2003] @ ustr ''zola'' @ [0x85]),
      req_email = Given (ustr ''e@x.com''),
      req_password = Given (ustr ''p3''), req_repeated_password = Given (ustr ''p3'')\<rparr>"

text \<open>
  The rows that the view tests of the repository set up, through the model classes and
  not through the service.
\<close>

definition sample_store :: store where
  "sample_store =
     \<lparr>users = [\<lparr>User_id = 1, User_username = ustr ''viewtestuser1'', User_email = [],
                 User_password = make_password (ustr ''password123''), User_first_name = [],
                 User_last_name = [], User_is_active = True\<rparr>,
               \<lparr>User_id = 2, User_username = ustr ''viewtestuser2'', User_email = [],
                 User_password = make_password (ustr ''password123''), User_first_name = [],
                 User_last_name = [], User_is_active = True\<rparr>],
      profiles = [], tokens = [],
      chats = [\<lparr>Chat_id = 1, Chat_title = ustr ''View Test Chat''\<rparr>],
      chat_members = [(1, 1), (1, 2)],
      messages = [\<lparr>Message_id = 1, Message_chat = Some 1, Message_author = Some 1,
                    Message_text = ustr ''Test message''\<rparr>],
      posts = [\<lparr>Post_id = 1, Post_chat = Some 1, Post_author = 1,
                 Post_title = ustr ''Post by User1'',
                 Post_content = ustr ''Content from user1.'', Post_created_at = 3\<rparr>,
               \<lparr>Post_id = 2, Post_chat = Some 1, Post_author = 2,
                 Post_title = ustr ''Post by User2'',
                 Post_content = ustr ''Content from user2.'', Post_created_at = 4\<rparr>],
      user_seq = 3, profile_seq = 1, chat_seq = 2, post_seq = 3\<rparr>"

definition no_payload :: post_payload where
  "no_payload = \<lparr>in_id = Omitted, in_chat = Omitted, in_author = Omitted, in_title = Omitted,
     in_content = Omitted, in_created_at = Omitted\<rparr>"

definition store_with_alice :: store where
  "store_with_alice = snd (RegistrationView_post ascii_tables sample_env empty_store alice)"

text \<open>
  The store after three requests to the service: the registration of \<open>alice\<close>, the
  registration of \<open>bob\<close>, and a Post created by the first of them.
\<close>

definition store_with_post :: store where
  "store_with_post =
     apply_operation ascii_tables
       (apply_operation ascii_tables
          (apply_operation ascii_tables empty_store (Register sample_env alice))
          (Register later_env bob))
       (PostRequest later_env
          \<lparr>request_user = Some 1,
             request_action = POST_create (no_payload\<lparr>in_title := Given (ustr '' Hello ''),
                in_content := Given (ustr ''First post'')\<rparr>)\<rparr>)"

section \<open>Evaluating the model on concrete requests\<close>

text \<open>The definitions that the simplifier unfolds to run the model on sample data.\<close>

lemmas ev = ustr_def isspace_def is_surrogate_def title_def split_def strip_def lower_ucs4_def
  handle_capital_sigma_def ascii_tables_def latin_tables_def emile_def
  sample_env_def later_env_def alice_def bob_def
  no_payload_def empty_store_def sample_store_def store_with_alice_def store_with_post_def
  RegistrationView_post_def RegistrationSerializer_is_valid_def
  RegistrationSerializer_create_def CharField_def EmailField_def run_validators_def
  max_length_check_def surrogate_check_def Token_get_or_create_def account_response_def
  display_name_def server_error_def CustomLogInView_post_def
  UsernameAuthTokenSerializer_is_valid_def UsernameAuthTokenSerializer_validate_def
  authenticate_def dict_get_def PostViewSet_dispatch_def has_permission_def
  PostViewSet_create_def PostViewSet_perform_create_def PostViewSet_update_def
  PostViewSet_retrieve_def PostViewSet_destroy_def PostSerializer_is_valid_def
  PostSerializer_create_def PostSerializer_update_def PostSerializer_writable_def
  PostSerializer_Meta_fields_def PostSerializer_Meta_read_only_fields_def Post_fields_def
  Post_not_editable_def get_field_names_def ALL_FIELDS_def truthy_def is_list_or_tuple_def
  field_input_def PrimaryKeyRelatedField_def the_pk_def get_object_def bad_request_def
  not_found_def not_authenticated_def store_ok_def profiles_by_user_email_def Let_def

section \<open>Facts about the string operations\<close>

lemma words_spec_Nil: "words_spec [] = []"
  by (subst words_spec.simps) simp

lemma words_spec_space: "isspace c \<Longrightarrow> words_spec (c # cs) = words_spec cs"
  by (subst words_spec.simps, subst (2) words_spec.simps) simp

lemma words_spec_word:
  "\<not> isspace c \<Longrightarrow>
   words_spec (c # cs)
     = (c # takeWhile (\<lambda>x. \<not> isspace x) cs) # words_spec (dropWhile (\<lambda>x. \<not> isspace x) cs)"
  by (subst words_spec.simps) simp

lemma split_from_words_spec:
  "split_from w s
     = (if w @ takeWhile (\<lambda>x. \<not> isspace x) s = [] then words_spec s
        else (w @ takeWhile (\<lambda>x. \<not> isspace x) s)
               # words_spec (dropWhile (\<lambda>x. \<not> isspace x) s))"
proof (induction s arbitrary: w)
  case Nil
  then show ?case by (simp add: words_spec_Nil)
next
  case (Cons c cs)
  show ?case
  proof (cases "isspace c")
    case True
    have "split_from [] cs = words_spec cs"
    proof (cases cs)
      case Nil
      then show ?thesis by (simp add: words_spec_Nil)
    next
      case (Cons d ds)
      show ?thesis
      proof (cases "isspace d")
        case True
        with Cons Cons.IH [of "[]"] show ?thesis by simp
      next
        case False
        with Cons Cons.IH [of "[]"] show ?thesis by (simp add: words_spec_word)
      qed
    qed
    with True show ?thesis by (simp add: words_spec_space)
  next
    case False
    with Cons.IH [of "w @ [c]"] show ?thesis by simp
  qed
qed

text \<open>The loop of \<^verbatim>\<open>split\<close> computes the words.\<close>

lemma split_words_spec: "split s = words_spec s"
proof (cases s)
  case Nil
  then show ?thesis by (simp add: split_def words_spec_Nil)
next
  case (Cons c cs)
  show ?thesis
  proof (cases "isspace c")
    case True
    with Cons show ?thesis by (simp add: split_def split_from_words_spec)
  next
    case False
    with Cons show ?thesis by (simp add: split_def split_from_words_spec words_spec_word)
  qed
qed

lemma join_joined_spec: "join sep ws = joined_spec sep ws"
  by (induction sep ws rule: join.induct) (simp_all add: joined_spec_def)

lemma do_title_positions:
  "drop i data = cs \<Longrightarrow>
   do_title U data i prev cs
     = concat (map (\<lambda>j. if (if j = i then prev else IsCased U (data ! (j - 1)))
                          then lower_ucs4 U data j (data ! j) else ToTitleFull U (data ! j))
                [i..<length data])"
proof (induction cs arbitrary: i prev)
  case Nil
  then show ?case by simp
next
  case (Cons c cs)
  from Cons.prems have i: "i < length data" by (cases "i < length data") simp_all
  from Cons.prems i have c: "data ! i = c" by (metis hd_drop_conv_nth list.sel(1))
  from Cons.prems have d: "drop (Suc i) data = cs" by (metis drop_Suc tl_drop list.sel(3))
  have "map (\<lambda>j. if (if j = Suc i then IsCased U c else IsCased U (data ! (j - 1)))
                          then lower_ucs4 U data j (data ! j) else ToTitleFull U (data ! j))
                [Suc i..<length data]
      = map (\<lambda>j. if (if j = i then prev else IsCased U (data ! (j - 1)))
                          then lower_ucs4 U data j (data ! j) else ToTitleFull U (data ! j))
                [Suc i..<length data]"
    by (rule map_cong) (auto simp: c)
  with Cons.IH [OF d, of "IsCased U c"] i c show ?case
    by (simp add: upt_conv_Cons)
qed

text \<open>The loop of \<^verbatim>\<open>title\<close> computes the title-cased string.\<close>

lemma title_title_spec: "title U s = title_spec U s"
proof -
  have "title U s
      = concat (map (\<lambda>j. if (if j = 0 then False else IsCased U (s ! (j - 1)))
                          then lower_ucs4 U s j (s ! j) else ToTitleFull U (s ! j))
                [0..<length s])"
    unfolding title_def by (rule do_title_positions) simp
  also have "\<dots> = concat (map (\<lambda>i. if 0 < i \<and> IsCased U (s ! (i - 1))
                          then lower_ucs4 U s i (s ! i) else ToTitleFull U (s ! i))
                [0..<length s])"
    by (rule arg_cong [where f = concat], rule map_cong) auto
  finally show ?thesis by (simp only: title_spec_def)
qed

lemma piece_ok:
  assumes "case_tables_ok U"
  shows "(if prev then lower_ucs4 U data i c else ToTitleFull U c) \<noteq> []"
    and "\<not> isspace c \<Longrightarrow>
           \<forall>d\<in>set (if prev then lower_ucs4 U data i c else ToTitleFull U c). \<not> isspace d"
    and "c \<noteq> 0 \<Longrightarrow> 0 \<notin> set (if prev then lower_ucs4 U data i c else ToTitleFull U c)"
    and "\<not> is_surrogate c \<Longrightarrow>
           \<forall>d\<in>set (if prev then lower_ucs4 U data i c else ToTitleFull U c). \<not> is_surrogate d"
proof -
  have s: "\<not> isspace (handle_capital_sigma U data i)" "handle_capital_sigma U data i \<noteq> 0"
    "\<not> is_surrogate (handle_capital_sigma U data i)"
    by (simp_all add: handle_capital_sigma_def Let_def isspace_def is_surrogate_def)
  from assms have t: "ToTitleFull U c \<noteq> []" "ToLowerFull U c \<noteq> []"
    by (simp_all add: case_tables_ok_def)
  then show "(if prev then lower_ucs4 U data i c else ToTitleFull U c) \<noteq> []"
    by (simp add: lower_ucs4_def)
  show "\<forall>d\<in>set (if prev then lower_ucs4 U data i c else ToTitleFull U c). \<not> isspace d"
    if "\<not> isspace c"
    using assms that s by (auto simp: case_tables_ok_def lower_ucs4_def)
  show "0 \<notin> set (if prev then lower_ucs4 U data i c else ToTitleFull U c)" if "c \<noteq> 0"
    using assms that s by (auto simp: case_tables_ok_def lower_ucs4_def)
  show "\<forall>d\<in>set (if prev then lower_ucs4 U data i c else ToTitleFull U c). \<not> is_surrogate d"
    if "\<not> is_surrogate c"
    using assms that s by (auto simp: case_tables_ok_def lower_ucs4_def)
qed

lemma do_title_Nil:
  "case_tables_ok U \<Longrightarrow> do_title U data i prev cs = [] \<longleftrightarrow> cs = []"
  using piece_ok(1) by (cases cs) auto

lemma do_title_nul:
  "case_tables_ok U \<Longrightarrow> 0 \<notin> set cs \<Longrightarrow> 0 \<notin> set (do_title U data i prev cs)"
proof (induction cs arbitrary: i prev)
  case Nil
  then show ?case by simp
next
  case (Cons c cs)
  then have "c \<noteq> 0" "0 \<notin> set cs" by auto
  with Cons.IH [OF Cons.prems(1)] piece_ok(3) [OF Cons.prems(1), of c prev data i]
  show ?case by simp
qed

lemma do_title_surrogate:
  "case_tables_ok U \<Longrightarrow> \<forall>c\<in>set cs. \<not> is_surrogate c \<Longrightarrow>
   \<forall>d\<in>set (do_title U data i prev cs). \<not> is_surrogate d"
proof (induction cs arbitrary: i prev)
  case Nil
  then show ?case by simp
next
  case (Cons c cs)
  then have "\<not> is_surrogate c" "\<forall>c\<in>set cs. \<not> is_surrogate c" by auto
  with Cons.IH [OF Cons.prems(1)] piece_ok(4) [OF Cons.prems(1), of c prev data i]
  show ?case by (auto split: if_splits)
qed

lemma do_title_hd:
  assumes "case_tables_ok U" and "\<not> isspace c"
  shows "\<not> isspace (hd (do_title U data i prev (c # cs)))"
proof -
  let ?p = "if prev then lower_ucs4 U data i c else ToTitleFull U c"
  have "?p \<noteq> []" using piece_ok(1) [OF assms(1)] .
  then have "hd (do_title U data i prev (c # cs)) = hd ?p" "hd ?p \<in> set ?p" by simp_all
  with piece_ok(2) [OF assms] show ?thesis by metis
qed

lemma do_title_last:
  "case_tables_ok U \<Longrightarrow> cs \<noteq> [] \<Longrightarrow> \<not> isspace (last cs) \<Longrightarrow>
   \<not> isspace (last (do_title U data i prev cs))"
proof (induction cs arbitrary: i prev)
  case Nil
  then show ?case by simp
next
  case (Cons c cs)
  let ?p = "if prev then lower_ucs4 U data i c else ToTitleFull U c"
  have p: "?p \<noteq> []" using piece_ok(1) [OF Cons.prems(1)] .
  show ?case
  proof (cases "cs = []")
    case True
    with Cons.prems have "\<not> isspace c" by simp
    from piece_ok(2) [OF Cons.prems(1) this, of prev data i] p have "\<not> isspace (last ?p)"
      by (metis last_in_set)
    with True show ?thesis by simp
  next
    case False
    with Cons.prems have "\<not> isspace (last cs)" by simp
    from Cons.IH [OF Cons.prems(1) False this]
    have "\<not> isspace (last (do_title U data (Suc i) (IsCased U c) cs))" .
    moreover have "do_title U data (Suc i) (IsCased U c) cs \<noteq> []"
      using False do_title_Nil [OF Cons.prems(1)] by simp
    ultimately show ?thesis by simp
  qed
qed

lemma strip_ends: "strip s \<noteq> [] \<Longrightarrow> \<not> isspace (hd (strip s)) \<and> \<not> isspace (last (strip s))"
proof -
  assume n: "strip s \<noteq> []"
  let ?d = "dropWhile isspace s"
  let ?e = "dropWhile isspace (rev ?d)"
  from n have e: "?e \<noteq> []" by (simp add: strip_def)
  have d: "?d \<noteq> []"
  proof
    assume "?d = []"
    then have "?e = []" by (simp only: rev.simps dropWhile.simps)
    with e show False by simp
  qed
  have l: "\<not> isspace (hd ?e)" using e by (metis hd_dropWhile)
  have "last (strip s) = hd ?e" using e by (simp add: strip_def last_rev)
  moreover have "\<not> isspace (hd (strip s))"
  proof -
    have "\<not> isspace (hd ?d)" using d by (metis hd_dropWhile)
    then have "\<not> isspace (last (rev ?d))" using d by (simp add: last_rev)
    moreover have "last ?e = last (rev ?d)" using e by (metis dropWhile_last dropWhile_eq_Nil_conv last_in_set)
    ultimately have "\<not> isspace (last ?e)" by simp
    then show ?thesis using e by (simp add: strip_def hd_rev)
  qed
  ultimately show ?thesis using l by simp
qed

lemma strip_id: "s \<noteq> [] \<Longrightarrow> \<not> isspace (hd s) \<Longrightarrow> \<not> isspace (last s) \<Longrightarrow> strip s = s"
proof -
  assume s: "s \<noteq> []" and a: "\<not> isspace (hd s)" and b: "\<not> isspace (last s)"
  from a s have "dropWhile isspace s = s" by (simp add: dropWhile_eq_self_iff)
  moreover from b s have "dropWhile isspace (rev s) = rev s"
    by (simp add: dropWhile_eq_self_iff hd_rev)
  ultimately show "strip s = s" by (simp add: strip_def)
qed

lemma title_Nil: "case_tables_ok U \<Longrightarrow> title U s = [] \<longleftrightarrow> s = []"
  by (simp add: title_def do_title_Nil)

lemma title_nul: "case_tables_ok U \<Longrightarrow> 0 \<notin> set s \<Longrightarrow> 0 \<notin> set (title U s)"
  by (simp add: title_def do_title_nul)

lemma title_surrogate:
  "case_tables_ok U \<Longrightarrow> \<forall>c\<in>set s. \<not> is_surrogate c \<Longrightarrow> \<forall>d\<in>set (title U s). \<not> is_surrogate d"
  unfolding title_def by (rule do_title_surrogate)

lemma strip_title_strip:
  assumes "case_tables_ok U" and "strip s \<noteq> []"
  shows "strip (title U (strip s)) = title U (strip s)"
proof -
  obtain c cs where c: "strip s = c # cs" using assms(2) by (cases "strip s") auto
  from strip_ends [OF assms(2)] c have e: "\<not> isspace c" "\<not> isspace (last (c # cs))" by simp_all
  have "\<not> isspace (hd (title U (strip s)))"
    unfolding title_def c using do_title_hd [OF assms(1) e(1)] .
  moreover have "\<not> isspace (last (title U (strip s)))"
    unfolding title_def c by (rule do_title_last [OF assms(1) _ e(2)]) simp
  moreover have "title U (strip s) \<noteq> []" using assms by (simp add: title_Nil)
  ultimately show ?thesis by (intro strip_id)
qed

lemma ascii_tables_ok: "case_tables_ok ascii_tables"
  unfolding case_tables_ok_def ascii_tables_def
  by (auto simp: isspace_def is_surrogate_def)

lemma latin_tables_ok: "case_tables_ok latin_tables"
  unfolding case_tables_ok_def latin_tables_def ascii_tables_def
  by (auto simp: isspace_def is_surrogate_def)

text \<open>
  The string operations on code points beyond ASCII: the small e with acute is
  title-cased to the capital one, the sharp s to two letters, and a no-break space
  separates words. The registration of \<open>emile\<close> stores the username stripped of the
  no-break space and the next-line character and title-cased, and the two words that the
  em space separates as the names.
\<close>

lemma title_latin:
  "title latin_tables (0xE9 # ustr ''mile zola'') = 0xC9 # ustr ''mile Zola''"
  "title latin_tables (0xDF # ustr ''a'') = ustr ''Ssa''"
  by (simp_all add: ev)

lemma split_no_break_space:
  "split (ustr ''ada'' @ [0xA0] @ ustr ''lovelace'') = [ustr ''ada'', ustr ''lovelace'']"
  by (simp add: ev)

lemma registration_emile:
  "status (fst (RegistrationView_post latin_tables sample_env empty_store emile)) = 201
   \<and> map User_username
        (users (snd (RegistrationView_post latin_tables sample_env empty_store emile)))
       = [0xC9 # ustr ''mile'' @ [0x2003] @ ustr ''Zola'']
   \<and> map User_first_name
        (users (snd (RegistrationView_post latin_tables sample_env empty_store emile)))
       = [0xC9 # ustr ''mile'']
   \<and> map User_last_name
        (users (snd (RegistrationView_post latin_tables sample_env empty_store emile)))
       = [ustr ''Zola'']"
  by (simp add: ev)

section \<open>Facts about field validation, tokens and \<^verbatim>\<open>create\<close>\<close>

lemma surrogate_check_passes:
  "filter (\<lambda>c. \<not> fst c) (surrogate_check v) = [] \<longleftrightarrow> (\<forall>c\<in>set v. \<not> is_surrogate c)"
  by (auto simp: surrogate_check_def filter_empty_conv split: list.splits)
     (metis filter_empty_conv list.distinct(1))

lemma run_validators_Inr:
  "run_validators checks v = Inr w \<longleftrightarrow> w = v \<and> filter (\<lambda>c. \<not> fst c) checks = []"
  by (auto simp: run_validators_def split: list.splits)

lemma CharField_Inr:
  assumes "CharField False tw ml ex d = Inr v"
  shows "\<exists>s. d = Given s \<and> v = (if tw then strip s else s) \<and> v \<noteq> []
           \<and> 0 \<notin> set v \<and> (\<forall>c\<in>set v. \<not> is_surrogate c)"
proof (cases d)
  case Omitted
  with assms show ?thesis by (simp add: CharField_def)
next
  case Null
  with assms show ?thesis by (simp add: CharField_def)
next
  case (Given s)
  let ?v = "if tw then strip s else s"
  from assms Given have nb: "\<not> (s = [] \<or> (tw \<and> strip s = []))"
    by (auto simp: CharField_def split: if_splits)
  with assms Given have r: "run_validators
       (max_length_check ml ?v @ [(0 \<notin> set ?v, E_null_characters)] @ surrogate_check ?v
          @ ex ?v) ?v = Inr v"
    by (simp add: CharField_def Let_def del: append.simps split: if_splits)
  then have "v = ?v" and "0 \<notin> set ?v" and "filter (\<lambda>c. \<not> fst c) (surrogate_check ?v) = []"
    by (auto simp: run_validators_Inr split: if_splits)
  with nb Given show ?thesis by (auto simp: surrogate_check_passes)
qed

lemma CharField_accepts:
  assumes "s \<noteq> []" and "tw \<longrightarrow> strip s = s" and "0 \<notin> set s"
    and "\<forall>c\<in>set s. \<not> is_surrogate c"
  shows "CharField False tw None (\<lambda>v. []) (Given s) = Inr s"
proof -
  have "filter (\<lambda>c. \<not> fst c) (surrogate_check s) = []"
    using assms(4) by (simp add: surrogate_check_passes)
  then have "run_validators
       (max_length_check None s @ [(0 \<notin> set s, E_null_characters)] @ surrogate_check s
          @ []) s = Inr s"
    using assms(3) by (simp add: run_validators_Inr max_length_check_def)
  with assms(1,2) show ?thesis
    by (auto simp: CharField_def Let_def)
qed

text \<open>The validated data are the submitted values with surrounding whitespace stripped.\<close>

lemma is_valid_Inr:
  assumes "RegistrationSerializer_is_valid e r = Inr v"
  shows "\<exists>name m p rp.
       req_username r = Given name \<and> req_email r = Given m
     \<and> req_password r = Given p \<and> req_repeated_password r = Given rp
     \<and> v = \<lparr>v_username = strip name, v_email = strip m, v_password = strip p,
            v_repeated_password = strip rp\<rparr>
     \<and> strip name \<noteq> [] \<and> 0 \<notin> set (strip name) \<and> (\<forall>c\<in>set (strip name). \<not> is_surrogate c)
     \<and> strip m \<noteq> []
     \<and> strip p \<noteq> [] \<and> 0 \<notin> set (strip p) \<and> (\<forall>c\<in>set (strip p). \<not> is_surrogate c)"
proof -
  from assms obtain u m p rp where
    u: "CharField False True None (\<lambda>v. []) (req_username r) = Inr u" and
    m: "EmailField e (req_email r) = Inr m" and
    p: "CharField False True (Some 128) (\<lambda>v. []) (req_password r) = Inr p" and
    rp: "CharField False True None (\<lambda>v. []) (req_repeated_password r) = Inr rp" and
    v: "v = \<lparr>v_username = u, v_email = m, v_password = p, v_repeated_password = rp\<rparr>"
    by (auto simp: RegistrationSerializer_is_valid_def Let_def split: sum.splits)
  from CharField_Inr [OF u] CharField_Inr [OF m [unfolded EmailField_def]]
    CharField_Inr [OF p] CharField_Inr [OF rp] v
  show ?thesis by auto
qed

lemma find_append_new:
  "\<forall>x\<in>set xs. \<not> P x \<Longrightarrow> find P (xs @ [y]) = (if P y then Some y else None)"
  by (induction xs) auto

lemma get_or_create_Some:
  assumes "Token_get_or_create e st uid = Some (t, st')"
  shows "find (\<lambda>t. Token_user t = uid) (tokens st') = Some t
     \<and> users st' = users st \<and> profiles st' = profiles st \<and> Token_user t = uid"
proof (cases "find (\<lambda>t. Token_user t = uid) (tokens st)")
  case None
  then have "\<forall>x\<in>set (tokens st). \<not> Token_user x = uid"
    by (simp add: find_None_iff)
  then have "find (\<lambda>t. Token_user t = uid) (tokens st @ [t]) = (if Token_user t = uid then Some t else None)"
    by (rule find_append_new)
  with assms None show ?thesis
    by (auto simp: Token_get_or_create_def Let_def split: if_splits)
next
  case (Some a)
  with assms show ?thesis
    by (auto simp: Token_get_or_create_def dest: find_Some_iff [THEN iffD1])
qed

lemma get_or_create_again:
  "find (\<lambda>t. Token_user t = uid) (tokens st) = Some t \<Longrightarrow>
   Token_get_or_create e st uid = Some (t, st)"
  by (simp add: Token_get_or_create_def)

lemma create_Inr:
  assumes "RegistrationSerializer_create U t st v = Inr (account, st')"
  shows "users st' = users st @ [account]
     \<and> profiles st' = profiles st @ [\<lparr>UserProfile_id = profile_seq st,
           UserProfile_user = user_seq st, UserProfile_email = [], UserProfile_tel = None,
           UserProfile_file = None, UserProfile_created_at = t\<rparr>]
     \<and> tokens st' = tokens st
     \<and> User_id account = user_seq st
     \<and> User_username account = title U (v_username v)
     \<and> User_email account = v_email v
     \<and> User_password account = make_password (v_password v)
     \<and> User_is_active account
     \<and> User_first_name account
         = (if length (split (title U (v_username v))) > 0
            then split (title U (v_username v)) ! 0 else [])
     \<and> User_last_name account
         = (if length (split (title U (v_username v))) > 1
            then join (ustr '' '') (drop 1 (split (title U (v_username v)))) else [])
     \<and> v_password v = v_repeated_password v
     \<and> (\<forall>u\<in>set (users st). User_email u \<noteq> v_email v)
     \<and> (\<forall>u\<in>set (users st). User_username u \<noteq> title U (v_username v))"
  using assms
  by (auto simp: RegistrationSerializer_create_def Let_def list_ex_iff split: if_splits)

lemma post_201:
  assumes "RegistrationView_post U e st request = (r, st')" and "status r = 201"
  shows "\<exists>v account st1 token. RegistrationSerializer_is_valid e request = Inr v
     \<and> RegistrationSerializer_create U (now e) st v = Inr (account, st1)
     \<and> Token_get_or_create e st1 (User_id account) = Some (token, st')
     \<and> r = account_response 201 token account"
  using assms
  by (auto simp: RegistrationView_post_def server_error_def split: sum.splits option.splits prod.splits)

lemma login_stored:
  assumes f: "find (\<lambda>u. User_username u = name) (users st) = Some account"
    and n: "name \<noteq> []" "strip name = name" "0 \<notin> set name" "\<forall>c\<in>set name. \<not> is_surrogate c"
    and p: "pw \<noteq> []" "0 \<notin> set pw" "\<forall>c\<in>set pw. \<not> is_surrogate c"
    and c: "User_password account = make_password pw" "User_is_active account"
    and t: "find (\<lambda>t. Token_user t = User_id account) (tokens st) = Some token"
  shows "CustomLogInView_post e st \<lparr>login_username = Given name, login_password = Given pw\<rparr>
           = (account_response 200 token account, st)"
proof -
  have "CharField False True None (\<lambda>v. []) (Given name) = Inr name"
    using n by (intro CharField_accepts) auto
  moreover have "CharField False False None (\<lambda>v. []) (Given pw) = Inr pw"
    using p by (intro CharField_accepts) auto
  moreover have "authenticate st name pw = Some account"
    using f c by (simp add: authenticate_def)
  ultimately have "UsernameAuthTokenSerializer_is_valid st
      \<lparr>login_username = Given name, login_password = Given pw\<rparr> = Inr account"
    using n p
    by (simp add: UsernameAuthTokenSerializer_is_valid_def dict_get_def
          UsernameAuthTokenSerializer_validate_def)
  then show ?thesis
    using get_or_create_again [OF t, of e] by (simp add: CustomLogInView_post_def)
qed

section \<open>Facts about \<^verbatim>\<open>PostSerializer\<close> and \<^verbatim>\<open>PostViewSet\<close>\<close>

lemma PostSerializer_field_names:
  "get_field_names PostSerializer_Meta_fields Unset Post_fields = Inr Post_fields"
  by (simp add: get_field_names_def PostSerializer_Meta_fields_def ALL_FIELDS_def truthy_def
        is_list_or_tuple_def)

lemma writable_simps:
  "PostSerializer_writable ''chat''" "PostSerializer_writable ''title''"
  "PostSerializer_writable ''content''" "\<not> PostSerializer_writable ''author''"
  "\<not> PostSerializer_writable ''created_at''" "\<not> PostSerializer_writable ''id''"
  unfolding PostSerializer_writable_def PostSerializer_field_names
  by (simp_all add: Post_fields_def PostSerializer_Meta_read_only_fields_def
        Post_not_editable_def)

lemma field_input_read_only:
  "\<not> PostSerializer_writable name \<Longrightarrow> field_input name required partial data validate = Inr None"
  by (simp add: field_input_def)

lemma field_input_omitted:
  "field_input name required partial Omitted validate = Inr v \<Longrightarrow> v = None"
  by (auto simp: field_input_def split: if_splits)

lemma field_input_title:
  assumes "field_input ''title'' True partial data (CharField False True ml (\<lambda>v. [])) = Inr v"
  shows "(\<forall>t. v = Some t \<longrightarrow> t \<noteq> []) \<and> (\<not> partial \<longrightarrow> v \<noteq> None)"
proof (cases data)
  case Omitted
  with assms show ?thesis by (auto simp: field_input_def writable_simps split: if_splits)
next
  case Null
  with assms show ?thesis by (auto simp: field_input_def writable_simps CharField_def)
next
  case (Given s)
  with assms obtain t where "CharField False True ml (\<lambda>v. []) (Given s) = Inr t" "v = Some t"
    by (cases "CharField False True ml (\<lambda>v. []) (Given s)")
       (auto simp: field_input_def writable_simps)
  with CharField_Inr [of True ml "\<lambda>v. []" "Given s" t] show ?thesis by auto
qed

lemma is_valid_attrs:
  assumes "PostSerializer_is_valid partial st payload = Inr attrs"
  shows "attrs_author attrs = None \<and> attrs_created_at attrs = None
     \<and> (in_chat payload = Omitted \<longrightarrow> attrs_chat attrs = None)
     \<and> (in_title payload = Omitted \<longrightarrow> attrs_title attrs = None)
     \<and> (in_content payload = Omitted \<longrightarrow> attrs_content attrs = None)
     \<and> (\<forall>t. attrs_title attrs = Some t \<longrightarrow> t \<noteq> [])
     \<and> (\<not> partial \<longrightarrow> attrs_title attrs \<noteq> None)"
proof -
  let ?chat = "field_input ''chat'' False partial (in_chat payload)
                   (PrimaryKeyRelatedField (map Chat_id (chats st)) True)"
  let ?title = "field_input ''title'' True partial (in_title payload)
                    (CharField False True (Some 200) (\<lambda>v. []))"
  let ?content = "field_input ''content'' True partial (in_content payload)
                      (CharField False True None (\<lambda>v. []))"
  from assms obtain c a t b ca where
    c: "?chat = Inr c" and t: "?title = Inr t" and b: "?content = Inr b" and
    a: "field_input ''author'' True partial (in_author payload)
          (\<lambda>d. the_pk (PrimaryKeyRelatedField (map User_id (users st)) False d)) = Inr a" and
    ca: "field_input ''created_at'' True partial (in_created_at payload)
          (\<lambda>d. case d of Given t \<Rightarrow> Inr t | _ \<Rightarrow> Inl [E_null]) = Inr ca" and
    attrs: "attrs = \<lparr>attrs_chat = c, attrs_author = a, attrs_title = t, attrs_content = b,
                  attrs_created_at = ca\<rparr>"
    by (auto simp: PostSerializer_is_valid_def Let_def split: sum.splits)
  have "a = None" using a by (simp add: field_input_read_only writable_simps)
  moreover have "ca = None" using ca by (simp add: field_input_read_only writable_simps)
  moreover have "in_chat payload = Omitted \<longrightarrow> c = None" using c field_input_omitted by metis
  moreover have "in_title payload = Omitted \<longrightarrow> t = None" using t field_input_omitted by metis
  moreover have "in_content payload = Omitted \<longrightarrow> b = None" using b field_input_omitted by metis
  moreover note field_input_title [OF t]
  ultimately show ?thesis using attrs by simp
qed

lemma field_errors_mem:
  "(name, Inl errs) \<in> set fs \<Longrightarrow> (name, errs) \<in> set (field_errors fs)"
  by (induction fs rule: field_errors.induct) auto

lemma is_valid_bad_chat:
  assumes "in_chat payload = Given c" and "c \<notin> Chat_id ` set (chats st)"
  shows "\<exists>errors. PostSerializer_is_valid partial st payload = Inl errors
           \<and> (''chat'', [E_does_not_exist c]) \<in> set errors"
proof -
  have "field_input ''chat'' False partial (in_chat payload)
          (PrimaryKeyRelatedField (map Chat_id (chats st)) True) = Inl [E_does_not_exist c]"
    using assms by (simp add: field_input_def writable_simps PrimaryKeyRelatedField_def)
  then show ?thesis
    by (auto simp: PostSerializer_is_valid_def Let_def intro!: field_errors_mem
             split: sum.splits)
qed

lemma message_does_not_exist:
  "sublist ''object does not exist'' (message (E_does_not_exist pk))"
proof -
  have "message (E_does_not_exist pk)
          = (''Invalid pk '' @ [CHR 0x22] @ str pk @ [CHR 0x22] @ '' - '')
              @ ''object does not exist'' @ ''.''"
    by simp
  then show ?thesis unfolding sublist_def by blast
qed

lemma find_Post_id: "find (\<lambda>r. Post_id r = pk) rows = Some p \<Longrightarrow> Post_id p = pk"
  by (auto simp: find_Some_iff)

lemma find_map_replace:
  "Post_id p = pk \<Longrightarrow>
   find (\<lambda>r. Post_id r = k) (map (\<lambda>row. if Post_id row = pk then p else row) rows)
     = (if k = pk then map_option (\<lambda>r. p) (find (\<lambda>r. Post_id r = pk) rows)
        else find (\<lambda>r. Post_id r = k) rows)"
  by (induction rows) auto

lemma update_fields:
  assumes "PostSerializer_update st inst attrs = (p, st')"
  shows "Post_id p = Post_id inst"
    and "posts st' = map (\<lambda>row. if Post_id row = Post_id inst then p else row) (posts st)"
    and "Post_author p = (case attrs_author attrs of None \<Rightarrow> Post_author inst | Some a \<Rightarrow> a)"
    and "Post_created_at p
           = (case attrs_created_at attrs of None \<Rightarrow> Post_created_at inst | Some t \<Rightarrow> t)"
    and "Post_title p = (case attrs_title attrs of None \<Rightarrow> Post_title inst | Some t \<Rightarrow> t)"
    and "Post_content p
           = (case attrs_content attrs of None \<Rightarrow> Post_content inst | Some b \<Rightarrow> b)"
    and "Post_chat p = (case attrs_chat attrs of None \<Rightarrow> Post_chat inst | Some c \<Rightarrow> c)"
proof -
  from assms have p: "p = fst (PostSerializer_update st inst attrs)"
    and st': "st' = snd (PostSerializer_update st inst attrs)" by simp_all
  show "Post_id p = Post_id inst" unfolding p by (simp add: PostSerializer_update_def Let_def)
  show "Post_author p = (case attrs_author attrs of None \<Rightarrow> Post_author inst | Some a \<Rightarrow> a)"
    unfolding p by (simp add: PostSerializer_update_def Let_def)
  show "Post_created_at p
           = (case attrs_created_at attrs of None \<Rightarrow> Post_created_at inst | Some t \<Rightarrow> t)"
    unfolding p by (simp add: PostSerializer_update_def Let_def)
  show "Post_title p = (case attrs_title attrs of None \<Rightarrow> Post_title inst | Some t \<Rightarrow> t)"
    unfolding p by (simp add: PostSerializer_update_def Let_def)
  show "Post_content p
           = (case attrs_content attrs of None \<Rightarrow> Post_content inst | Some b \<Rightarrow> b)"
    unfolding p by (simp add: PostSerializer_update_def Let_def)
  show "Post_chat p = (case attrs_chat attrs of None \<Rightarrow> Post_chat inst | Some c \<Rightarrow> c)"
    unfolding p by (simp add: PostSerializer_update_def Let_def)
  show "posts st' = map (\<lambda>row. if Post_id row = Post_id inst then p else row) (posts st)"
    unfolding p st' by (simp add: PostSerializer_update_def Let_def)
qed

lemma update_get_object:
  assumes "get_object st pk = Some inst"
    and "PostSerializer_update st inst attrs = (p, st')"
  shows "get_object st' k = (if k = pk then Some p else get_object st k)"
proof -
  have i: "Post_id inst = pk" using assms(1) unfolding get_object_def by (rule find_Post_id)
  have p: "Post_id p = pk" using update_fields(1) [OF assms(2)] i by simp
  have st': "posts st' = map (\<lambda>row. if Post_id row = pk then p else row) (posts st)"
    using update_fields(2) [OF assms(2)] i by simp
  have f: "find (\<lambda>r. Post_id r = pk) (posts st) = Some inst"
    using assms(1) by (simp add: get_object_def)
  show ?thesis
    by (simp only: get_object_def st' find_map_replace [OF p] f option.map)
qed

lemma update_cases:
  obtains (missing) "get_object st pk = None"
      and "PostViewSet_update partial st pk payload = (not_found, st)"
  | (invalid) inst errors where "get_object st pk = Some inst"
      and "PostSerializer_is_valid partial st payload = Inl errors"
      and "PostViewSet_update partial st pk payload = (bad_request errors, st)"
  | (saved) inst attrs p st' where "get_object st pk = Some inst"
      and "PostSerializer_is_valid partial st payload = Inr attrs"
      and "PostSerializer_update st inst attrs = (p, st')"
      and "PostViewSet_update partial st pk payload = (\<lparr>status = 200, body = PostData p\<rparr>, st')"
proof (cases "get_object st pk")
  case None
  then show ?thesis using missing by (simp add: PostViewSet_update_def)
next
  case (Some inst)
  show ?thesis
  proof (cases "PostSerializer_is_valid partial st payload")
    case (Inl errors)
    with Some show ?thesis using invalid by (simp add: PostViewSet_update_def)
  next
    case (Inr attrs)
    obtain p st' where u: "PostSerializer_update st inst attrs = (p, st')"
      by (cases "PostSerializer_update st inst attrs")
    with Some Inr show ?thesis using saved by (simp add: PostViewSet_update_def)
  qed
qed

lemma update_keeps_author_created_at:
  "map_option Post_author (get_object (snd (PostViewSet_update partial st pk payload)) k)
     = map_option Post_author (get_object st k)
   \<and> map_option Post_created_at (get_object (snd (PostViewSet_update partial st pk payload)) k)
     = map_option Post_created_at (get_object st k)"
proof (cases rule: update_cases [of st pk partial payload])
  case missing
  then show ?thesis by simp
next
  case (invalid inst errors)
  then show ?thesis by simp
next
  case (saved inst attrs p st')
  from is_valid_attrs [OF saved(2)] update_fields [OF saved(3)]
  have "Post_author p = Post_author inst" "Post_created_at p = Post_created_at inst"
    by simp_all
  with saved(1) show ?thesis
    by (simp add: saved(4) update_get_object [OF saved(1) saved(3)])
qed

lemma dispatch_authenticated:
  "PostViewSet_dispatch e st \<lparr>request_user = Some u, request_action = a\<rparr>
     = (case a of
          GET_list \<Rightarrow> (\<lparr>status = 200, body = PostList (posts st)\<rparr>, st)
        | GET_retrieve pk \<Rightarrow> PostViewSet_retrieve st pk
        | POST_create payload \<Rightarrow> PostViewSet_create e st (Some u) payload
        | PUT_update pk payload \<Rightarrow> PostViewSet_update False st pk payload
        | PATCH_partial_update pk payload \<Rightarrow> PostViewSet_update True st pk payload
        | DELETE_destroy pk \<Rightarrow> PostViewSet_destroy st pk)"
  by (cases a) (simp_all add: PostViewSet_dispatch_def has_permission_def)

lemma create_cases:
  obtains (invalid) errors where "PostSerializer_is_valid False st payload = Inl errors"
      and "PostViewSet_create e st (Some u) payload = (bad_request errors, st)"
  | (saved) attrs where "PostSerializer_is_valid False st payload = Inr attrs"
      and "PostViewSet_create e st (Some u) payload
         = (\<lparr>status = 201, body = PostData (fst (PostSerializer_create e st attrs u))\<rparr>,
            snd (PostSerializer_create e st attrs u))"
  by (cases "PostSerializer_is_valid False st payload")
     (auto simp: PostViewSet_create_def PostViewSet_perform_create_def split: prod.splits)

lemma collect_CASCADE: "collect CASCADE fk sn pk rows = filter (\<lambda>r. fk r \<noteq> Some pk) rows"
  by (simp add: collect_def)

lemma collect_SET_NULL:
  "collect SET_NULL fk sn pk rows = map (\<lambda>r. if fk r = Some pk then sn r else r) rows"
  by (simp add: collect_def)

lemma Chat_delete_posts:
  "posts (Chat_delete st c) = filter (\<lambda>p. Post_chat p \<noteq> Some c) (posts st)"
  by (simp add: Chat_delete_def Post_chat_on_delete_def collect_CASCADE)

lemma Chat_delete_messages:
  "messages (Chat_delete st c)
     = map (\<lambda>m. if Message_chat m = Some c then m\<lparr>Message_chat := None\<rparr> else m) (messages st)"
  by (simp add: Chat_delete_def Message_chat_on_delete_def collect_SET_NULL)

lemma User_delete_posts:
  "posts (User_delete st u) = filter (\<lambda>p. Post_author p \<noteq> u) (posts st)"
  by (simp add: User_delete_def Post_author_on_delete_def collect_CASCADE)

lemma User_delete_messages:
  "messages (User_delete st u)
     = map (\<lambda>m. if Message_author m = Some u then m\<lparr>Message_author := None\<rparr> else m) (messages st)"
  by (simp add: User_delete_def Message_author_on_delete_def collect_SET_NULL)

section \<open>Registration that fails validation writes nothing\<close>

lemma create_error_unchanged:
  assumes "v_password v \<noteq> v_repeated_password v
     \<or> (\<exists>u\<in>set (users st). User_email u = v_email v)
     \<or> (\<exists>u\<in>set (users st). User_username u = title U (v_username v))"
  shows "\<exists>detail. RegistrationSerializer_create U t st v = Inl detail"
  using assms by (auto simp: RegistrationSerializer_create_def Let_def list_ex_iff)

lemma create_mismatch:
  "v_password v \<noteq> v_repeated_password v \<Longrightarrow>
   RegistrationSerializer_create U t st v = Inl [(''error'', ''Passwords do not match'')]"
  by (simp add: RegistrationSerializer_create_def Let_def)

text \<open>
  C1 (as amended). The serializer fields strip surrounding whitespace from the submitted
  values before anything is compared. A registration request is rejected with status 400,
  and the store after the request is the store before it (so no User, UserProfile or
  Token row is added and every table keeps its rows), whenever, on the stripped values,
  the password differs from the repeated password, or the email is that of a stored User,
  or the title-cased username is that of a stored User; a password mismatch on fields that
  validate is reported as \<^verbatim>\<open>{'error': 'Passwords do not match'}\<close>. A request whose fields
  do not validate is rejected in the same way, with the errors of the fields.
\<close>

theorem registration_failure_writes_nothing:
  assumes "req_username request = Given name" and "req_email request = Given m"
    and "req_password request = Given p" and "req_repeated_password request = Given rp"
    and "strip p \<noteq> strip rp
       \<or> (\<exists>u\<in>set (users st). User_email u = strip m)
       \<or> (\<exists>u\<in>set (users st). User_username u = title U (strip name))"
  shows "status (fst (RegistrationView_post U e st request)) = 400
     \<and> snd (RegistrationView_post U e st request) = st
     \<and> users (snd (RegistrationView_post U e st request)) = users st
     \<and> profiles (snd (RegistrationView_post U e st request)) = profiles st
     \<and> tokens (snd (RegistrationView_post U e st request)) = tokens st
     \<and> (\<forall>v. RegistrationSerializer_is_valid e request = Inr v \<and> strip p \<noteq> strip rp \<longrightarrow>
          body (fst (RegistrationView_post U e st request))
            = Detail [(''error'', ''Passwords do not match'')])
     \<and> (\<forall>errors. RegistrationSerializer_is_valid e request = Inl errors \<longrightarrow>
          body (fst (RegistrationView_post U e st request)) = Errors errors)"
proof (cases "RegistrationSerializer_is_valid e request")
  case (Inl errors)
  then show ?thesis by (simp add: RegistrationView_post_def)
next
  case (Inr v)
  from is_valid_Inr [OF Inr] assms(1-4)
  have v: "v_username v = strip name" "v_email v = strip m" "v_password v = strip p"
    "v_repeated_password v = strip rp"
    by auto
  with assms(5) obtain detail where
    d: "RegistrationSerializer_create U (now e) st v = Inl detail"
    using create_error_unchanged [of v st U "now e"] by auto
  have "strip p \<noteq> strip rp \<Longrightarrow> detail = [(''error'', ''Passwords do not match'')]"
    using d v create_mismatch [of v U "now e" st] by simp
  with Inr d show ?thesis by (auto simp: RegistrationView_post_def)
qed

theorem registration_failure_writes_nothing_witness:
  "RegistrationView_post ascii_tables later_env store_with_alice
      (bob\<lparr>req_username := Given (ustr '' aLICE '')\<rparr>)
     = (\<lparr>status = 400, body = Detail [(''error'', ''This username is already taken'')]\<rparr>,
        store_with_alice)"
proof -
  let ?request = "bob\<lparr>req_username := Given (ustr '' aLICE '')\<rparr>"
  have f: "req_username ?request = Given (ustr '' aLICE '')"
    "req_email ?request = Given (ustr ''b@x.com '')"
    "req_password ?request = Given (ustr '' s3cret'')"
    "req_repeated_password ?request = Given (ustr ''s3cret '')"
    by (simp_all add: bob_def)
  have c: "strip (ustr '' s3cret'') \<noteq> strip (ustr ''s3cret '')
       \<or> (\<exists>u\<in>set (users store_with_alice). User_email u = strip (ustr ''b@x.com ''))
       \<or> (\<exists>u\<in>set (users store_with_alice).
             User_username u = title ascii_tables (strip (ustr '' aLICE '')))"
    by (simp add: ev)
  have b: "body (fst (RegistrationView_post ascii_tables later_env store_with_alice ?request))
             = Detail [(''error'', ''This username is already taken'')]"
    by (simp add: ev)
  from registration_failure_writes_nothing [OF f c, of later_env] b show ?thesis
    by (cases "RegistrationView_post ascii_tables later_env store_with_alice ?request")
       (cases "fst (RegistrationView_post ascii_tables later_env store_with_alice ?request)",
        simp)
qed

text \<open>
  The claim as written compares the values as they are submitted. A request whose
  password \<^verbatim>\<open>'p1 '\<close> differs from its repeated password \<^verbatim>\<open>'p1'\<close> only by surrounding
  whitespace is answered 201, and a User, a UserProfile and a Token are written.
\<close>

theorem padded_password_counterexample:
  "ustr ''p1 '' \<noteq> ustr ''p1''
   \<and> req_password (alice\<lparr>req_password := Given (ustr ''p1 '')\<rparr>) = Given (ustr ''p1 '')
   \<and> req_repeated_password (alice\<lparr>req_password := Given (ustr ''p1 '')\<rparr>) = Given (ustr ''p1'')
   \<and> status (fst (RegistrationView_post ascii_tables sample_env empty_store
        (alice\<lparr>req_password := Given (ustr ''p1 '')\<rparr>))) = 201
   \<and> length (users (snd (RegistrationView_post ascii_tables sample_env empty_store
        (alice\<lparr>req_password := Given (ustr ''p1 '')\<rparr>)))) = 1
   \<and> length (profiles (snd (RegistrationView_post ascii_tables sample_env empty_store
        (alice\<lparr>req_password := Given (ustr ''p1 '')\<rparr>)))) = 1
   \<and> length (tokens (snd (RegistrationView_post ascii_tables sample_env empty_store
        (alice\<lparr>req_password := Given (ustr ''p1 '')\<rparr>)))) = 1"
  by (simp add: ev)

section \<open>Names derived from the username\<close>

lemma names_spec:
  "(if length ws > 0 then ws ! 0 else []) = (case ws of [] \<Rightarrow> [] | w # rest \<Rightarrow> w)"
  "(if length ws > 1 then join sep (drop 1 ws) else [])
     = (case ws of [] \<Rightarrow> [] | w # rest \<Rightarrow> joined_spec sep rest)"
  by (cases ws; cases "tl ws"; simp add: join_joined_spec joined_spec_def)+

text \<open>
  C9 (as amended). For a registration answered 201, the service strips surrounding
  whitespace from the submitted username and stores the title-cased result; the words of
  the stored username, separated by whitespace, give the names: the first word is the
  first name, the words after the first, joined by one space each, are the last name, and
  the last name is the empty string when there is no further word.
\<close>

theorem registration_names:
  assumes "RegistrationView_post U e st request = (r, st')" and "status r = 201"
    and "req_username request = Given name"
  shows "\<exists>account. users st' = users st @ [account]
     \<and> User_username account = title_spec U (strip name)
     \<and> User_first_name account
         = (case words_spec (User_username account) of [] \<Rightarrow> [] | w # rest \<Rightarrow> w)
     \<and> User_last_name account
         = (case words_spec (User_username account) of
              [] \<Rightarrow> [] | w # rest \<Rightarrow> joined_spec (ustr '' '') rest)
     \<and> (length (words_spec (User_username account)) \<le> 1 \<longrightarrow> User_last_name account = [])"
proof -
  from post_201 [OF assms(1,2)] obtain v account st1 token where
    v: "RegistrationSerializer_is_valid e request = Inr v" and
    c: "RegistrationSerializer_create U (now e) st v = Inr (account, st1)" and
    g: "Token_get_or_create e st1 (User_id account) = Some (token, st')"
    by blast
  from is_valid_Inr [OF v] assms(3) have n: "v_username v = strip name" by auto
  note c' = create_Inr [OF c]
  note g' = get_or_create_Some [OF g]
  have u: "users st' = users st @ [account]" using c' g' by simp
  have t: "User_username account = title_spec U (strip name)"
    using c' n by (simp add: title_title_spec)
  have w: "split (title U (v_username v)) = words_spec (User_username account)"
    using c' by (simp add: split_words_spec)
  have f: "User_first_name account
         = (case words_spec (User_username account) of [] \<Rightarrow> [] | w # rest \<Rightarrow> w)"
    using c' unfolding w names_spec by simp
  have l: "User_last_name account
         = (case words_spec (User_username account) of
              [] \<Rightarrow> [] | w # rest \<Rightarrow> joined_spec (ustr '' '') rest)"
    using c' unfolding w names_spec by simp
  have "length (words_spec (User_username account)) \<le> 1 \<longrightarrow> User_last_name account = []"
    unfolding l by (auto simp: joined_spec_def split: list.splits)
  with u t f l show ?thesis by blast
qed

theorem registration_names_witness:
  "\<exists>account.
      users (snd (RegistrationView_post ascii_tables later_env store_with_alice bob))
        = users store_with_alice @ [account]
    \<and> User_username account = ustr ''Bob  Van Dyke''
    \<and> User_first_name account = ustr ''Bob''
    \<and> User_last_name account = ustr ''Van Dyke''"
proof -
  let ?R = "RegistrationView_post ascii_tables later_env store_with_alice bob"
  have p: "?R = (fst ?R, snd ?R)" by simp
  have s: "status (fst ?R) = 201" by (simp add: ev)
  have n: "req_username bob = Given (ustr ''  bOB  van dYKE '')" by (simp add: bob_def)
  have t: "title_spec ascii_tables (strip (ustr ''  bOB  van dYKE '')) = ustr ''Bob  Van Dyke''"
    unfolding title_title_spec [symmetric] by (simp add: ev)
  have w: "words_spec (ustr ''Bob  Van Dyke'') = [ustr ''Bob'', ustr ''Van'', ustr ''Dyke'']"
    unfolding split_words_spec [symmetric] by (simp add: ev)
  have j: "joined_spec (ustr '' '') [ustr ''Van'', ustr ''Dyke''] = ustr ''Van Dyke''"
    unfolding join_joined_spec [symmetric] by (simp add: ev)
  from registration_names [OF p s n] obtain account where
    a: "users (snd ?R) = users store_with_alice @ [account]"
      "User_username account = title_spec ascii_tables (strip (ustr ''  bOB  van dYKE ''))"
      "User_first_name account
         = (case words_spec (User_username account) of [] \<Rightarrow> [] | w # rest \<Rightarrow> w)"
      "User_last_name account
         = (case words_spec (User_username account) of
              [] \<Rightarrow> [] | w # rest \<Rightarrow> joined_spec (ustr '' '') rest)"
    by blast
  have u: "User_username account = ustr ''Bob  Van Dyke''" using a(2) t by simp
  have "User_first_name account = ustr ''Bob''" unfolding a(3) u w by simp
  moreover have "User_last_name account = ustr ''Van Dyke''" unfolding a(4) u w by (simp add: j)
  ultimately show ?thesis using a(1) u by blast
qed

text \<open>
  The claim as written has the title-cased input stored. The input \<^verbatim>\<open>'  alice smith '\<close>
  is title-cased to \<^verbatim>\<open>'  Alice Smith '\<close>, and \<^verbatim>\<open>'Alice Smith'\<close> is what is stored.
\<close>

theorem stored_username_counterexample:
  "status (fst (RegistrationView_post ascii_tables sample_env empty_store
      (alice\<lparr>req_username := Given (ustr ''  alice smith '')\<rparr>))) = 201
   \<and> title ascii_tables (ustr ''  alice smith '') = ustr ''  Alice Smith ''
   \<and> map User_username (users (snd (RegistrationView_post ascii_tables sample_env empty_store
      (alice\<lparr>req_username := Given (ustr ''  alice smith '')\<rparr>)))) = [ustr ''Alice Smith'']"
  by (simp add: ev)

section \<open>A successful registration and the logins after it\<close>

text \<open>
  C2 (as amended). The serializer fields strip surrounding whitespace from the submitted
  values, and the stored username is the stripped one title-cased. After a registration
  answered 201, on a store that satisfies its integrity constraints (every reachable store
  does), exactly one User has the registered email (stripped), exactly one UserProfile
  belongs to a User with that email, the token of the response is the one that resolves
  for the new user, and every later login with the stored username and the stored password
  (the registered one, stripped) is answered 200 with that same token and leaves the store
  as it is, so repeating the login repeats the answer.
\<close>

theorem successful_registration:
  assumes ok: "store_ok st"
    and tables: "case_tables_ok U"
    and post: "RegistrationView_post U e st request = (r, st')"
    and created: "status r = 201"
  shows "\<exists>name m p account token.
       req_username request = Given name \<and> req_email request = Given m
     \<and> req_password request = Given p
     \<and> r = account_response 201 token account
     \<and> User_email account = strip m
     \<and> User_username account = title U (strip name)
     \<and> length (filter (\<lambda>u. User_email u = strip m) (users st')) = 1
     \<and> length (profiles_by_user_email st' (strip m)) = 1
     \<and> find (\<lambda>t. Token_user t = User_id account) (tokens st') = Some token
     \<and> (\<forall>e'. CustomLogInView_post e' st'
               \<lparr>login_username = Given (title U (strip name)),
                  login_password = Given (strip p)\<rparr>
             = (account_response 200 token account, st'))"
proof -
  from post_201 [OF post created] obtain v account st1 token where
    v: "RegistrationSerializer_is_valid e request = Inr v" and
    c: "RegistrationSerializer_create U (now e) st v = Inr (account, st1)" and
    g: "Token_get_or_create e st1 (User_id account) = Some (token, st')" and
    r: "r = account_response 201 token account"
    by blast
  from is_valid_Inr [OF v] obtain name m p rp where
    f: "req_username request = Given name" "req_email request = Given m"
      "req_password request = Given p" and
    vv: "v_username v = strip name" "v_email v = strip m" "v_password v = strip p" and
    n: "strip name \<noteq> []" "0 \<notin> set (strip name)" "\<forall>c\<in>set (strip name). \<not> is_surrogate c" and
    pw: "strip p \<noteq> []" "0 \<notin> set (strip p)" "\<forall>c\<in>set (strip p). \<not> is_surrogate c"
    by auto
  note c' = create_Inr [OF c]
  note g' = get_or_create_Some [OF g]
  have us: "users st' = users st @ [account]" using c' g' by simp
  have ps: "profiles st' = profiles st @ [\<lparr>UserProfile_id = profile_seq st,
           UserProfile_user = user_seq st, UserProfile_email = [], UserProfile_tel = None,
           UserProfile_file = None, UserProfile_created_at = now e\<rparr>]" using c' g' by simp
  have em: "User_email account = strip m" using c' vv by simp
  have un: "User_username account = title U (strip name)" using c' vv by simp
  have one_user: "length (filter (\<lambda>u. User_email u = strip m) (users st')) = 1"
    using c' vv by (simp add: us)
  have old: "filter (\<lambda>p. \<exists>u\<in>set (users st'). User_id u = UserProfile_user p
                 \<and> User_email u = strip m) (profiles st) = []"
  proof -
    have "\<not> (\<exists>u\<in>set (users st'). User_id u = UserProfile_user q \<and> User_email u = strip m)"
      if "q \<in> set (profiles st)" for q
    proof -
      from ok that obtain w where w: "w \<in> set (users st)" "User_id w = UserProfile_user q"
        by (auto simp: store_ok_def)
      with ok have "UserProfile_user q < user_seq st" by (auto simp: store_ok_def)
      with c' vv show ?thesis by (auto simp: us)
    qed
    then show ?thesis by (simp add: filter_empty_conv)
  qed
  have one_profile: "length (profiles_by_user_email st' (strip m)) = 1"
    unfolding profiles_by_user_email_def ps filter_append old
    using c' em by (simp add: us)
  have fu: "find (\<lambda>u. User_username u = title U (strip name)) (users st') = Some account"
    unfolding us using c' vv by (subst find_append_new) auto
  have sn: "title U (strip name) \<noteq> []" "strip (title U (strip name)) = title U (strip name)"
       "0 \<notin> set (title U (strip name))" "\<forall>c\<in>set (title U (strip name)). \<not> is_surrogate c"
    using n tables
    by (simp_all add: title_Nil title_nul title_surrogate strip_title_strip)
  have pwd: "User_password account = make_password (strip p)" "User_is_active account"
    using c' vv by simp_all
  have tk: "find (\<lambda>t. Token_user t = User_id account) (tokens st') = Some token"
    using g' by simp
  have "CustomLogInView_post e' st'
               \<lparr>login_username = Given (title U (strip name)),
                  login_password = Given (strip p)\<rparr>
             = (account_response 200 token account, st')" for e'
    by (rule login_stored [OF fu sn pw pwd tk])
  with f r em un one_user one_profile tk show ?thesis by blast
qed

theorem successful_registration_witness:
  "store_ok store_with_alice \<and> case_tables_ok ascii_tables
   \<and> (\<exists>account token.
         RegistrationView_post ascii_tables later_env store_with_alice bob
           = (account_response 201 token account,
              snd (RegistrationView_post ascii_tables later_env store_with_alice bob))
       \<and> User_email account = ustr ''b@x.com''
       \<and> User_username account = ustr ''Bob  Van Dyke''
       \<and> length (profiles_by_user_email
            (snd (RegistrationView_post ascii_tables later_env store_with_alice bob))
            (ustr ''b@x.com'')) = 1
       \<and> CustomLogInView_post sample_env
            (snd (RegistrationView_post ascii_tables later_env store_with_alice bob))
            \<lparr>login_username = Given (ustr ''Bob  Van Dyke''),
               login_password = Given (ustr ''s3cret'')\<rparr>
           = (account_response 200 token account,
              snd (RegistrationView_post ascii_tables later_env store_with_alice bob)))"
proof -
  let ?R = "RegistrationView_post ascii_tables later_env store_with_alice bob"
  have ok: "store_ok store_with_alice" by (simp add: ev)
  have post: "?R = (fst ?R, snd ?R)" by simp
  have created: "status (fst ?R) = 201" by (simp add: ev)
  have f: "req_username bob = Given (ustr ''  bOB  van dYKE '')"
    "req_email bob = Given (ustr ''b@x.com '')" "req_password bob = Given (ustr '' s3cret'')"
    by (simp_all add: bob_def)
  have s: "strip (ustr ''b@x.com '') = ustr ''b@x.com''"
    "strip (ustr '' s3cret'') = ustr ''s3cret''"
    "title ascii_tables (strip (ustr ''  bOB  van dYKE '')) = ustr ''Bob  Van Dyke''"
    by (simp_all add: ev)
  from successful_registration [OF ok ascii_tables_ok post created] f
  obtain account token where
    a: "fst ?R = account_response 201 token account"
      "User_email account = strip (ustr ''b@x.com '')"
      "User_username account = title ascii_tables (strip (ustr ''  bOB  van dYKE ''))"
      "length (profiles_by_user_email (snd ?R) (strip (ustr ''b@x.com ''))) = 1"
      "CustomLogInView_post sample_env (snd ?R)
         \<lparr>login_username = Given (title ascii_tables (strip (ustr ''  bOB  van dYKE ''))),
            login_password = Given (strip (ustr '' s3cret''))\<rparr>
         = (account_response 200 token account, snd ?R)"
    by auto
  have "?R = (account_response 201 token account, snd ?R)" using a(1) post by simp
  with a(2-5) ok ascii_tables_ok show ?thesis unfolding s by blast
qed

text \<open>
  The claim as written has the login made with the credentials as they were sent to the
  registration. The username \<^verbatim>\<open>alice\<close> is stored as \<^verbatim>\<open>Alice\<close>, and the login of
  \<^verbatim>\<open>alice\<close> is refused; the password \<^verbatim>\<open>' p1 '\<close> is stored stripped, the login does not
  strip it, and the login with \<^verbatim>\<open>' p1 '\<close> is refused.
\<close>

theorem login_same_credentials_counterexample:
  "status (fst (RegistrationView_post ascii_tables sample_env empty_store alice)) = 201
   \<and> fst (CustomLogInView_post sample_env
            (snd (RegistrationView_post ascii_tables sample_env empty_store alice))
            \<lparr>login_username = Given (ustr ''alice''), login_password = Given (ustr ''p1'')\<rparr>)
       = \<lparr>status = 400, body = Detail [(''error'', ''Invalid username or password'')]\<rparr>
   \<and> status (fst (RegistrationView_post ascii_tables sample_env empty_store
        (alice\<lparr>req_password := Given (ustr '' p1 ''),
               req_repeated_password := Given (ustr '' p1 '')\<rparr>))) = 201
   \<and> fst (CustomLogInView_post sample_env
            (snd (RegistrationView_post ascii_tables sample_env empty_store
               (alice\<lparr>req_password := Given (ustr '' p1 ''),
                      req_repeated_password := Given (ustr '' p1 '')\<rparr>)))
            \<lparr>login_username = Given (ustr ''Alice''), login_password = Given (ustr '' p1 '')\<rparr>)
       = \<lparr>status = 400, body = Detail [(''error'', ''Invalid username or password'')]\<rparr>"
  by (simp add: ev)

section \<open>Deleting a Chat or a User\<close>

text \<open>
  C3. Deleting a Chat removes exactly the Posts whose chat is that Chat and keeps every
  Message, with the chat reference of the Messages that referred to it set to null;
  deleting a User removes exactly the Posts authored by that User and keeps every Message,
  with the author reference of the Messages authored by that User set to null. Afterwards
  no Post and no Message refers to the deleted row.
\<close>

theorem delete_cascades_and_nulls:
  "posts (Chat_delete st c) = filter (\<lambda>p. Post_chat p \<noteq> Some c) (posts st)
   \<and> messages (Chat_delete st c)
       = map (\<lambda>m. if Message_chat m = Some c then m\<lparr>Message_chat := None\<rparr> else m) (messages st)
   \<and> map Message_id (messages (Chat_delete st c)) = map Message_id (messages st)
   \<and> (\<forall>m\<in>set (messages (Chat_delete st c)). Message_chat m \<noteq> Some c)
   \<and> (\<forall>p\<in>set (posts (Chat_delete st c)). Post_chat p \<noteq> Some c)
   \<and> posts (User_delete st u) = filter (\<lambda>p. Post_author p \<noteq> u) (posts st)
   \<and> messages (User_delete st u)
       = map (\<lambda>m. if Message_author m = Some u then m\<lparr>Message_author := None\<rparr> else m) (messages st)
   \<and> map Message_id (messages (User_delete st u)) = map Message_id (messages st)
   \<and> (\<forall>m\<in>set (messages (User_delete st u)). Message_author m \<noteq> Some u)
   \<and> (\<forall>p\<in>set (posts (User_delete st u)). Post_author p \<noteq> u)"
  unfolding Chat_delete_posts Chat_delete_messages User_delete_posts User_delete_messages
  by (auto intro: map_cong)

theorem delete_cascades_and_nulls_witness:
  "posts (Chat_delete sample_store 1) = []
   \<and> map Message_chat (messages (Chat_delete sample_store 1)) = [None]
   \<and> map Message_id (messages (Chat_delete sample_store 1)) = [1]
   \<and> map Post_id (posts (User_delete sample_store 1)) = [2]
   \<and> map Message_author (messages (User_delete sample_store 1)) = [None]
   \<and> map Message_id (messages (User_delete sample_store 1)) = [1]"
  using delete_cascades_and_nulls [of sample_store 1 1]
  by (simp add: sample_store_def)

section \<open>The Chat serializer\<close>

text \<open>
  With a tuple as \<^verbatim>\<open>exclude\<close>, which is what the tests of the repository expect, the
  representation has no \<^verbatim>\<open>id\<close> member and a created Chat takes the next key of the
  sequence whatever \<^verbatim>\<open>id\<close> the payload carries.
\<close>

lemma Chat_representation_tuple:
  "Chat_representation (Seq [''id'']) st c
     = Inr [(''title'', JStr (Chat_title c)), (''members'', JList (Chat_members st (Chat_id c)))]"
  by (simp add: Chat_representation_def get_field_names_def truthy_def is_list_or_tuple_def
        Chat_fields_def Chat_field_value_def)

lemma Chat_create_tuple:
  "Chat_create (Seq [''id'']) st payload = Inr (Inr (c, st')) \<Longrightarrow> Chat_id c = chat_seq st"
  by (auto simp: Chat_create_def get_field_names_def truthy_def is_list_or_tuple_def
        Chat_fields_def Let_def split: sum.splits)

text \<open>
  C4. The claim is that a serialized Chat has no \<^verbatim>\<open>id\<close> member and that a create payload
  with an \<^verbatim>\<open>id\<close> yields a Chat with a fresh key. The serializer as it is declared,
  with the string \<^verbatim>\<open>"id"\<close> as \<^verbatim>\<open>exclude\<close>, does neither: serializing a Chat and
  validating the payload \<^verbatim>\<open>{'title': 'Another Chat', 'id': 999}\<close> both raise
  \<^verbatim>\<open>TypeError\<close>, and no Chat is created.
\<close>

theorem ChatSerializer_raises_TypeError:
  "ChatSerializer_data sample_store \<lparr>Chat_id = 1, Chat_title = ustr ''View Test Chat''\<rparr>
     = Inl (TypeError ''The `exclude` option must be a list or tuple. Got str.'')
   \<and> ChatSerializer_save sample_store
         \<lparr>in_chat_id = Given 999, in_chat_title = Given (ustr ''Another Chat''),
            in_chat_members = Omitted\<rparr>
     = Inl (TypeError ''The `exclude` option must be a list or tuple. Got str.'')"
  by (simp add: ChatSerializer_data_def ChatSerializer_save_def Chat_representation_def
        Chat_create_def ChatSerializer_Meta_exclude_def get_field_names_def truthy_def
        is_list_or_tuple_def)

section \<open>Author and creation time of a Post\<close>

text \<open>
  C6. A create request of the authenticated user \<open>u\<close> that is answered 201 appends one
  Post whose author is \<open>u\<close> and whose creation time is the time of the request, whatever
  \<^verbatim>\<open>author\<close> and \<^verbatim>\<open>created_at\<close> the payload carries, and a create request answered
  otherwise leaves the store as it is. After a full or a partial update, every Post,
  looked up by its key, has the author and the creation time it had before, whatever the
  payload carries.
\<close>

theorem post_author_and_created_at:
  "(status (fst (PostViewSet_dispatch e st
        \<lparr>request_user = Some u, request_action = POST_create payload\<rparr>)) = 201 \<longrightarrow>
      (\<exists>p. body (fst (PostViewSet_dispatch e st
                \<lparr>request_user = Some u, request_action = POST_create payload\<rparr>)) = PostData p
          \<and> posts (snd (PostViewSet_dispatch e st
                \<lparr>request_user = Some u, request_action = POST_create payload\<rparr>)) = posts st @ [p]
          \<and> Post_author p = u \<and> Post_created_at p = now e))
   \<and> (status (fst (PostViewSet_dispatch e st
        \<lparr>request_user = Some u, request_action = POST_create payload\<rparr>)) \<noteq> 201 \<longrightarrow>
      snd (PostViewSet_dispatch e st
        \<lparr>request_user = Some u, request_action = POST_create payload\<rparr>) = st)
   \<and> map_option Post_author (get_object (snd (PostViewSet_dispatch e st
        \<lparr>request_user = Some u, request_action = PUT_update pk payload\<rparr>)) k)
       = map_option Post_author (get_object st k)
   \<and> map_option Post_created_at (get_object (snd (PostViewSet_dispatch e st
        \<lparr>request_user = Some u, request_action = PUT_update pk payload\<rparr>)) k)
       = map_option Post_created_at (get_object st k)
   \<and> map_option Post_author (get_object (snd (PostViewSet_dispatch e st
        \<lparr>request_user = Some u, request_action = PATCH_partial_update pk payload\<rparr>)) k)
       = map_option Post_author (get_object st k)
   \<and> map_option Post_created_at (get_object (snd (PostViewSet_dispatch e st
        \<lparr>request_user = Some u, request_action = PATCH_partial_update pk payload\<rparr>)) k)
       = map_option Post_created_at (get_object st k)"
proof -
  let ?create = "PostViewSet_dispatch e st
        \<lparr>request_user = Some u, request_action = POST_create payload\<rparr>"
  have cr: "?create = PostViewSet_create e st (Some u) payload"
    by (simp add: dispatch_authenticated)
  have put: "PostViewSet_dispatch e st
        \<lparr>request_user = Some u, request_action = PUT_update pk payload\<rparr>
      = PostViewSet_update False st pk payload"
    by (simp add: dispatch_authenticated)
  have patch: "PostViewSet_dispatch e st
        \<lparr>request_user = Some u, request_action = PATCH_partial_update pk payload\<rparr>
      = PostViewSet_update True st pk payload"
    by (simp add: dispatch_authenticated)
  have c: "status (fst ?create) = 201 \<longrightarrow>
      (\<exists>p. body (fst ?create) = PostData p \<and> posts (snd ?create) = posts st @ [p]
          \<and> Post_author p = u \<and> Post_created_at p = now e)"
    unfolding cr
    by (cases rule: create_cases [of st payload e u])
       (simp_all add: bad_request_def PostSerializer_create_def Let_def)
  have d: "status (fst ?create) \<noteq> 201 \<longrightarrow> snd ?create = st"
    unfolding cr
    by (cases rule: create_cases [of st payload e u]) simp_all
  note f = update_keeps_author_created_at [of False st pk payload k]
  note g = update_keeps_author_created_at [of True st pk payload k]
  show ?thesis
  proof (intro conjI)
    show "status (fst ?create) = 201 \<longrightarrow>
      (\<exists>p. body (fst ?create) = PostData p \<and> posts (snd ?create) = posts st @ [p]
          \<and> Post_author p = u \<and> Post_created_at p = now e)" by (rule c)
    show "status (fst ?create) \<noteq> 201 \<longrightarrow> snd ?create = st" by (rule d)
  qed (simp_all only: put patch f g)
qed

theorem post_author_and_created_at_witness:
  "status (fst (PostViewSet_dispatch sample_env sample_store
      \<lparr>request_user = Some 1,
         request_action = POST_create (no_payload\<lparr>in_title := Given (ustr ''T''),
            in_content := Given (ustr ''C''), in_author := Given 2, in_created_at := Given 0\<rparr>)\<rparr>)) = 201
   \<and> (\<exists>p. posts (snd (PostViewSet_dispatch sample_env sample_store
      \<lparr>request_user = Some 1,
         request_action = POST_create (no_payload\<lparr>in_title := Given (ustr ''T''),
            in_content := Given (ustr ''C''), in_author := Given 2, in_created_at := Given 0\<rparr>)\<rparr>))
         = posts sample_store @ [p] \<and> Post_author p = 1 \<and> Post_created_at p = 5)"
proof -
  have s: "status (fst (PostViewSet_dispatch sample_env sample_store
      \<lparr>request_user = Some 1,
         request_action = POST_create (no_payload\<lparr>in_title := Given (ustr ''T''),
            in_content := Given (ustr ''C''), in_author := Given 2, in_created_at := Given 0\<rparr>)\<rparr>)) = 201"
    by (simp add: ev)
  have n: "now sample_env = 5" by (simp add: sample_env_def)
  from post_author_and_created_at [of sample_env sample_store 1
      "no_payload\<lparr>in_title := Given (ustr ''T''), in_content := Given (ustr ''C''), in_author := Given 2,
         in_created_at := Given 0\<rparr>" 1 1] s n
  show ?thesis by auto
qed

section \<open>Requests without an authenticated identity\<close>

text \<open>
  C7. A request to a Post endpoint (list, retrieve, create, update, partial update or
  delete) that carries no authenticated identity is answered 401 and the store after it
  is the store before it.
\<close>

theorem unauthenticated_is_401:
  "status (fst (PostViewSet_dispatch e st \<lparr>request_user = None, request_action = a\<rparr>)) = 401
   \<and> body (fst (PostViewSet_dispatch e st \<lparr>request_user = None, request_action = a\<rparr>))
       = Detail [(''detail'', ''Authentication credentials were not provided.'')]
   \<and> snd (PostViewSet_dispatch e st \<lparr>request_user = None, request_action = a\<rparr>) = st"
  by (simp add: PostViewSet_dispatch_def has_permission_def not_authenticated_def)

theorem unauthenticated_is_401_witness:
  "status (fst (PostViewSet_dispatch sample_env sample_store
      \<lparr>request_user = None, request_action = DELETE_destroy 1\<rparr>)) = 401
   \<and> posts (snd (PostViewSet_dispatch sample_env sample_store
      \<lparr>request_user = None, request_action = DELETE_destroy 1\<rparr>)) = posts sample_store"
  using unauthenticated_is_401 [of sample_env sample_store "DELETE_destroy 1"]
  by simp

section \<open>A chat id that resolves to no Chat\<close>

text \<open>
  C8 (as amended). When the payload of an authenticated request carries a chat id that
  is the key of no Chat, a create request, and an update or partial update request
  addressed to an existing Post, is answered 400 with an error on the \<^verbatim>\<open>chat\<close> field
  whose message contains "object does not exist"; an update or partial update request
  addressed to a key with no Post is answered 404. In each case the store after the
  request is the store before it.
\<close>

theorem bad_chat_rejected:
  assumes "in_chat payload = Given c" and "c \<notin> Chat_id ` set (chats st)"
  shows "(\<exists>errors.
            PostViewSet_dispatch e st \<lparr>request_user = Some u, request_action = POST_create payload\<rparr>
              = (\<lparr>status = 400, body = Errors errors\<rparr>, st)
          \<and> (''chat'', [E_does_not_exist c]) \<in> set errors)
     \<and> (get_object st pk \<noteq> None \<longrightarrow>
          (\<exists>errors.
            PostViewSet_dispatch e st \<lparr>request_user = Some u, request_action = PUT_update pk payload\<rparr>
              = (\<lparr>status = 400, body = Errors errors\<rparr>, st)
          \<and> (''chat'', [E_does_not_exist c]) \<in> set errors))
     \<and> (get_object st pk \<noteq> None \<longrightarrow>
          (\<exists>errors.
            PostViewSet_dispatch e st
                \<lparr>request_user = Some u, request_action = PATCH_partial_update pk payload\<rparr>
              = (\<lparr>status = 400, body = Errors errors\<rparr>, st)
          \<and> (''chat'', [E_does_not_exist c]) \<in> set errors))
     \<and> (get_object st pk = None \<longrightarrow>
          PostViewSet_dispatch e st \<lparr>request_user = Some u, request_action = PUT_update pk payload\<rparr>
            = (not_found, st)
          \<and> PostViewSet_dispatch e st
                \<lparr>request_user = Some u, request_action = PATCH_partial_update pk payload\<rparr>
            = (not_found, st))
     \<and> sublist ''object does not exist'' (message (E_does_not_exist c))"
proof -
  have v: "\<exists>errors. PostSerializer_is_valid partial st payload = Inl errors
           \<and> (''chat'', [E_does_not_exist c]) \<in> set errors" for partial
    using assms by (rule is_valid_bad_chat)
  have cr: "\<exists>errors. PostViewSet_create e st (Some u) payload
              = (\<lparr>status = 400, body = Errors errors\<rparr>, st)
          \<and> (''chat'', [E_does_not_exist c]) \<in> set errors"
  proof -
    from v [of False] obtain errors where
      "PostSerializer_is_valid False st payload = Inl errors"
      "(''chat'', [E_does_not_exist c]) \<in> set errors" by blast
    then show ?thesis by (simp add: PostViewSet_create_def bad_request_def)
  qed
  have up: "\<exists>errors. PostViewSet_update partial st pk payload
              = (\<lparr>status = 400, body = Errors errors\<rparr>, st)
          \<and> (''chat'', [E_does_not_exist c]) \<in> set errors"
    if "get_object st pk \<noteq> None" for partial
  proof -
    from that obtain inst where i: "get_object st pk = Some inst" by blast
    from v [of partial] obtain errors where
      "PostSerializer_is_valid partial st payload = Inl errors"
      "(''chat'', [E_does_not_exist c]) \<in> set errors" by blast
    with i show ?thesis by (simp add: PostViewSet_update_def bad_request_def)
  qed
  have nf: "PostViewSet_update partial st pk payload = (not_found, st)"
    if "get_object st pk = None" for partial
    using that by (simp add: PostViewSet_update_def)
  have d1: "PostViewSet_dispatch e st \<lparr>request_user = Some u, request_action = POST_create payload\<rparr>
      = PostViewSet_create e st (Some u) payload"
    by (simp add: dispatch_authenticated)
  have d2: "PostViewSet_dispatch e st \<lparr>request_user = Some u, request_action = PUT_update pk payload\<rparr>
      = PostViewSet_update False st pk payload"
    by (simp add: dispatch_authenticated)
  have d3: "PostViewSet_dispatch e st
        \<lparr>request_user = Some u, request_action = PATCH_partial_update pk payload\<rparr>
      = PostViewSet_update True st pk payload"
    by (simp add: dispatch_authenticated)
  show ?thesis
    unfolding d1 d2 d3
  proof (intro conjI impI)
    show "sublist ''object does not exist'' (message (E_does_not_exist c))"
      by (rule message_does_not_exist)
  qed (fact cr, erule up, erule up, erule nf, erule nf)
qed

theorem bad_chat_rejected_witness:
  "\<exists>errors.
      PostViewSet_dispatch sample_env sample_store
        \<lparr>request_user = Some 1,
           request_action = POST_create (no_payload\<lparr>in_chat := Given 9999,
              in_title := Given (ustr ''Post with Invalid Chat''), in_content := Given (ustr ''Content.'')\<rparr>)\<rparr>
        = (\<lparr>status = 400, body = Errors errors\<rparr>, sample_store)
    \<and> (''chat'', [E_does_not_exist 9999]) \<in> set errors"
proof -
  have a: "in_chat (no_payload\<lparr>in_chat := Given 9999,
              in_title := Given (ustr ''Post with Invalid Chat''), in_content := Given (ustr ''Content.'')\<rparr>)
             = Given 9999"
    by (simp add: no_payload_def)
  have b: "9999 \<notin> Chat_id ` set (chats sample_store)" by (simp add: sample_store_def)
  from bad_chat_rejected [OF a b, of sample_env 1 1] show ?thesis by blast
qed

text \<open>
  The claim as written covers every update request. An update addressed to a key with no
  Post is answered 404, with no error on the \<^verbatim>\<open>chat\<close> field, before the payload is
  looked at.
\<close>

theorem update_missing_post_counterexample:
  "PostViewSet_dispatch sample_env sample_store
      \<lparr>request_user = Some 1,
         request_action = PUT_update 9999 (no_payload\<lparr>in_chat := Given 9999,
            in_title := Given (ustr ''T''), in_content := Given (ustr ''C'')\<rparr>)\<rparr>
     = (\<lparr>status = 404, body = Detail [(''detail'', ''Not found.'')]\<rparr>, sample_store)"
  by (simp add: dispatch_authenticated PostViewSet_update_def get_object_def sample_store_def
        not_found_def)

section \<open>Partial update of a Post\<close>

lemma update_frame:
  assumes "get_object st pk = Some post"
  shows "(in_title payload = Omitted \<longrightarrow>
            map_option Post_title (get_object (snd (PostViewSet_update True st pk payload)) pk)
              = Some (Post_title post))
     \<and> (in_content payload = Omitted \<longrightarrow>
            map_option Post_content (get_object (snd (PostViewSet_update True st pk payload)) pk)
              = Some (Post_content post))
     \<and> (in_chat payload = Omitted \<longrightarrow>
            map_option Post_chat (get_object (snd (PostViewSet_update True st pk payload)) pk)
              = Some (Post_chat post))
     \<and> (status (fst (PostViewSet_update True st pk payload)) = 200
          \<longleftrightarrow> (\<exists>attrs. PostSerializer_is_valid True st payload = Inr attrs))
     \<and> (status (fst (PostViewSet_update True st pk payload)) \<noteq> 200
          \<longrightarrow> status (fst (PostViewSet_update True st pk payload)) = 400
            \<and> snd (PostViewSet_update True st pk payload) = st)"
proof (cases rule: update_cases [of st pk True payload])
  case missing
  with assms show ?thesis by simp
next
  case (invalid inst errors)
  with assms show ?thesis by (simp add: bad_request_def)
next
  case (saved inst attrs p st')
  from saved(1) assms have i: "inst = post" by simp
  note a = is_valid_attrs [OF saved(2)]
  note f = update_fields [OF saved(3)]
  have g: "get_object st' pk = Some p"
    using update_get_object [OF saved(1) saved(3), of pk] by simp
  have t: "in_title payload = Omitted \<longrightarrow> Post_title p = Post_title post"
    using a f(5) i by simp
  have c: "in_content payload = Omitted \<longrightarrow> Post_content p = Post_content post"
    using a f(6) i by simp
  have h: "in_chat payload = Omitted \<longrightarrow> Post_chat p = Post_chat post"
    using a f(7) i by simp
  show ?thesis
    unfolding saved(4) using t c h g saved(2) by simp
qed

text \<open>
  C10 (as amended). For an authenticated partial update of an existing Post, each of
  \<^verbatim>\<open>title\<close>, \<^verbatim>\<open>content\<close> and \<^verbatim>\<open>chat\<close> that the payload omits has afterwards the value
  it had before; the request is answered 200 exactly when the supplied values validate,
  and otherwise 400 with the store as it was.
\<close>

theorem partial_update_frame:
  assumes "get_object st pk = Some post"
  shows "(in_title payload = Omitted \<longrightarrow>
            map_option Post_title (get_object (snd (PostViewSet_dispatch e st
                \<lparr>request_user = Some u, request_action = PATCH_partial_update pk payload\<rparr>)) pk)
              = Some (Post_title post))
     \<and> (in_content payload = Omitted \<longrightarrow>
            map_option Post_content (get_object (snd (PostViewSet_dispatch e st
                \<lparr>request_user = Some u, request_action = PATCH_partial_update pk payload\<rparr>)) pk)
              = Some (Post_content post))
     \<and> (in_chat payload = Omitted \<longrightarrow>
            map_option Post_chat (get_object (snd (PostViewSet_dispatch e st
                \<lparr>request_user = Some u, request_action = PATCH_partial_update pk payload\<rparr>)) pk)
              = Some (Post_chat post))
     \<and> (status (fst (PostViewSet_dispatch e st
                \<lparr>request_user = Some u, request_action = PATCH_partial_update pk payload\<rparr>)) = 200
          \<longleftrightarrow> (\<exists>attrs. PostSerializer_is_valid True st payload = Inr attrs))
     \<and> (status (fst (PostViewSet_dispatch e st
                \<lparr>request_user = Some u, request_action = PATCH_partial_update pk payload\<rparr>)) \<noteq> 200
          \<longrightarrow> status (fst (PostViewSet_dispatch e st
                \<lparr>request_user = Some u, request_action = PATCH_partial_update pk payload\<rparr>)) = 400
            \<and> snd (PostViewSet_dispatch e st
                \<lparr>request_user = Some u, request_action = PATCH_partial_update pk payload\<rparr>) = st)"
proof -
  have d: "PostViewSet_dispatch e st
        \<lparr>request_user = Some u, request_action = PATCH_partial_update pk payload\<rparr>
      = PostViewSet_update True st pk payload"
    by (simp add: dispatch_authenticated)
  show ?thesis
    unfolding d using assms by (rule update_frame)
qed

theorem partial_update_frame_witness:
  "status (fst (PostViewSet_dispatch sample_env sample_store
      \<lparr>request_user = Some 1,
         request_action = PATCH_partial_update 1 (no_payload\<lparr>in_title := Given (ustr ''New'')\<rparr>)\<rparr>)) = 200
   \<and> map_option Post_content (get_object (snd (PostViewSet_dispatch sample_env sample_store
      \<lparr>request_user = Some 1,
         request_action = PATCH_partial_update 1 (no_payload\<lparr>in_title := Given (ustr ''New'')\<rparr>)\<rparr>)) 1)
       = Some (ustr ''Content from user1.'')"
proof -
  have g: "get_object sample_store 1
             = Some \<lparr>Post_id = 1, Post_chat = Some 1, Post_author = 1,
                  Post_title = ustr ''Post by User1'', Post_content = ustr ''Content from user1.'',
                  Post_created_at = 3\<rparr>"
    by (simp add: get_object_def sample_store_def)
  have v: "PostSerializer_is_valid True sample_store (no_payload\<lparr>in_title := Given (ustr ''New'')\<rparr>)
             = Inr \<lparr>attrs_chat = None, attrs_author = None, attrs_title = Some (ustr ''New''),
                    attrs_content = None, attrs_created_at = None\<rparr>"
    by (simp add: ev)
  have c: "in_content (no_payload\<lparr>in_title := Given (ustr ''New'')\<rparr>) = Omitted"
    by (simp add: no_payload_def)
  from partial_update_frame [OF g, of "no_payload\<lparr>in_title := Given (ustr ''New'')\<rparr>" sample_env 1] v c
  show ?thesis by simp
qed

text \<open>
  The claim as written has every partial update answered 200. A partial update whose
  title is blank is answered 400.
\<close>

theorem partial_update_blank_title_counterexample:
  "get_object sample_store 1 \<noteq> None
   \<and> status (fst (PostViewSet_dispatch sample_env sample_store
        \<lparr>request_user = Some 1,
           request_action = PATCH_partial_update 1 (no_payload\<lparr>in_title := Given []\<rparr>)\<rparr>)) = 400"
  by (simp add: ev)

section \<open>The invariant of the reachable stores\<close>

lemma get_or_create_tables:
  assumes "Token_get_or_create e st uid = Some (t, st')"
  shows "users st' = users st" "posts st' = posts st" "chats st' = chats st"
proof -
  from assms have "st' = st \<or> st' = st\<lparr>tokens := tokens st @ [t]\<rparr>"
    by (auto simp: Token_get_or_create_def Let_def split: option.splits if_splits)
  then show "users st' = users st" "posts st' = posts st" "chats st' = chats st"
    by auto
qed

lemma create_tables:
  assumes "RegistrationSerializer_create U t st v = Inr (account, st')"
  shows "posts st' = posts st" "chats st' = chats st"
proof -
  from assms have s: "st' = snd (account, st')" by simp
  from assms show "posts st' = posts st" "chats st' = chats st"
    by (auto simp: RegistrationSerializer_create_def Let_def split: if_splits)
qed

lemma register_cases:
  obtains (rejected) "snd (RegistrationView_post U e st request) = st"
  | (stored) v account st1 where "RegistrationSerializer_is_valid e request = Inr v"
      and "RegistrationSerializer_create U (now e) st v = Inr (account, st1)"
      and "users (snd (RegistrationView_post U e st request)) = users st1"
      and "posts (snd (RegistrationView_post U e st request)) = posts st1"
      and "chats (snd (RegistrationView_post U e st request)) = chats st1"
proof (cases "RegistrationSerializer_is_valid e request")
  case (Inl errors)
  then show ?thesis using rejected by (simp add: RegistrationView_post_def)
next
  case (Inr v)
  show ?thesis
  proof (cases "RegistrationSerializer_create U (now e) st v")
    case (Inl detail)
    with Inr show ?thesis using rejected by (simp add: RegistrationView_post_def)
  next
    case c: (Inr result)
    obtain account st1 where r: "result = (account, st1)" by (cases result)
    show ?thesis
    proof (cases "Token_get_or_create e st1 (User_id account)")
      case None
      with Inr c r show ?thesis using stored [of v account st1]
        by (simp add: RegistrationView_post_def)
    next
      case (Some a)
      obtain t st2 where a: "a = (t, st2)" by (cases a)
      from Some a get_or_create_tables [of e st1 "User_id account" t st2]
      have "users st2 = users st1" "posts st2 = posts st1" "chats st2 = chats st1" by simp_all
      with Inr c r Some a show ?thesis using stored [of v account st1]
        by (simp add: RegistrationView_post_def)
    qed
  qed
qed

lemma register_invariant:
  assumes "store_invariant st" and U: "case_tables_ok U"
  shows "store_invariant (snd (RegistrationView_post U e st request))"
proof (cases rule: register_cases [of U e st request])
  case rejected
  with assms show ?thesis by simp
next
  case (stored v account st1)
  note c = create_Inr [OF stored(2)]
  note t = create_tables [OF stored(2)]
  from is_valid_Inr [OF stored(1)]
  have v: "v_username v \<noteq> []" "v_email v \<noteq> []" by auto
  have n: "User_username account \<noteq> []" "User_email account \<noteq> []"
    using c v by (simp_all add: title_Nil [OF U])
  have "User_username account \<notin> set (map User_username (users st))"
    "User_email account \<notin> set (map User_email (users st))"
    using c by auto
  with assms(1) n c t show ?thesis
    unfolding store_invariant_def stored(3) stored(4) stored(5)
    by auto
qed

lemma login_invariant:
  assumes "store_invariant st"
  shows "store_invariant (snd (CustomLogInView_post e st request))"
proof (cases "UsernameAuthTokenSerializer_is_valid st request")
  case (Inl errors)
  with assms show ?thesis by (simp add: CustomLogInView_post_def)
next
  case (Inr user)
  show ?thesis
  proof (cases "Token_get_or_create e st (User_id user)")
    case None
    with Inr assms show ?thesis by (simp add: CustomLogInView_post_def)
  next
    case (Some a)
    obtain t st2 where a: "a = (t, st2)" by (cases a)
    from Some a get_or_create_tables [of e st "User_id user" t st2]
    have "users st2 = users st" "posts st2 = posts st" "chats st2 = chats st" by simp_all
    with Inr Some a assms show ?thesis
      by (simp add: CustomLogInView_post_def store_invariant_def)
  qed
qed

lemma Chat_delete_invariant:
  assumes "store_invariant st"
  shows "store_invariant (Chat_delete st pk)"
proof -
  have "chats (Chat_delete st pk) = filter (\<lambda>c. Chat_id c \<noteq> pk) (chats st)"
    "users (Chat_delete st pk) = users st"
    by (simp_all add: Chat_delete_def)
  with assms show ?thesis
    unfolding store_invariant_def Chat_delete_posts by auto
qed

lemma User_delete_invariant:
  assumes "store_invariant st"
  shows "store_invariant (User_delete st pk)"
proof -
  have "chats (User_delete st pk) = chats st"
    "users (User_delete st pk) = filter (\<lambda>u. User_id u \<noteq> pk) (users st)"
    by (simp_all add: User_delete_def)
  with assms show ?thesis
    unfolding store_invariant_def User_delete_posts by (auto simp: distinct_map_filter)
qed

lemma update_tables:
  assumes "PostSerializer_update st inst attrs = (p, st')"
  shows "users st' = users st" "chats st' = chats st"
proof -
  from assms have st': "st' = snd (PostSerializer_update st inst attrs)" by simp
  show "users st' = users st" "chats st' = chats st"
    unfolding st' by (simp_all add: PostSerializer_update_def Let_def)
qed

lemma get_object_mem: "get_object st pk = Some inst \<Longrightarrow> inst \<in> set (posts st)"
  by (auto simp: get_object_def find_Some_iff)

lemma update_invariant:
  assumes "store_invariant st"
  shows "store_invariant (snd (PostViewSet_update partial st pk payload))"
proof (cases rule: update_cases [of st pk partial payload])
  case missing
  with assms show ?thesis by simp
next
  case (invalid inst errors)
  with assms show ?thesis by simp
next
  case (saved inst attrs p st')
  note a = is_valid_attrs [OF saved(2)]
  note f = update_fields [OF saved(3)]
  note t = update_tables [OF saved(3)]
  have "Post_title inst \<noteq> []"
    using assms get_object_mem [OF saved(1)] by (simp add: store_invariant_def)
  then have "Post_title p \<noteq> []"
    using a f(5) by (cases "attrs_title attrs") simp_all
  then have "\<forall>q\<in>set (posts st'). Post_title q \<noteq> []"
    using assms unfolding f(2) store_invariant_def by auto
  with assms t show ?thesis
    unfolding saved(4) by (simp add: store_invariant_def)
qed

lemma create_invariant:
  assumes "store_invariant st"
  shows "store_invariant (snd (PostViewSet_create e st user payload))"
proof (cases user)
  case None
  with assms show ?thesis
    by (simp add: PostViewSet_create_def split: sum.splits)
next
  case (Some u)
  have "store_invariant (snd (PostViewSet_create e st (Some u) payload))"
  proof (cases rule: create_cases [of st payload e u])
    case (invalid errors)
    with assms show ?thesis by simp
  next
    case (saved attrs)
    note a = is_valid_attrs [OF saved(1)]
    from a obtain t where "attrs_title attrs = Some t" "t \<noteq> []" by auto
    with assms show ?thesis
      unfolding saved(2)
      by (simp add: PostSerializer_create_def Let_def store_invariant_def)
  qed
  with Some show ?thesis by simp
qed

lemma destroy_invariant:
  assumes "store_invariant st"
  shows "store_invariant (snd (PostViewSet_destroy st pk))"
  using assms
  by (cases "get_object st pk") (simp_all add: PostViewSet_destroy_def store_invariant_def)

lemma retrieve_unchanged: "snd (PostViewSet_retrieve st pk) = st"
  by (cases "get_object st pk") (simp_all add: PostViewSet_retrieve_def)

lemma dispatch_invariant:
  assumes "store_invariant st"
  shows "store_invariant (snd (PostViewSet_dispatch e st rq))"
proof (cases "has_permission (request_user rq)")
  case False
  with assms show ?thesis by (simp add: PostViewSet_dispatch_def)
next
  case True
  show ?thesis
  proof (cases "request_action rq")
    case GET_list
    with True assms show ?thesis by (simp add: PostViewSet_dispatch_def)
  next
    case (GET_retrieve pk)
    with True assms show ?thesis by (simp add: PostViewSet_dispatch_def retrieve_unchanged)
  next
    case (POST_create payload)
    with True create_invariant [OF assms] show ?thesis by (simp add: PostViewSet_dispatch_def)
  next
    case (PUT_update pk payload)
    with True update_invariant [OF assms] show ?thesis by (simp add: PostViewSet_dispatch_def)
  next
    case (PATCH_partial_update pk payload)
    with True update_invariant [OF assms] show ?thesis by (simp add: PostViewSet_dispatch_def)
  next
    case (DELETE_destroy pk)
    with True destroy_invariant [OF assms] show ?thesis by (simp add: PostViewSet_dispatch_def)
  qed
qed

lemma apply_operation_invariant:
  "case_tables_ok U \<Longrightarrow> store_invariant st \<Longrightarrow> store_invariant (apply_operation U st opn)"
  by (cases opn)
     (simp_all add: register_invariant login_invariant dispatch_invariant
        Chat_delete_invariant User_delete_invariant)

lemma empty_store_invariant: "store_invariant empty_store"
  by (simp add: store_invariant_def empty_store_def)

text \<open>
  The integrity constraints that the count of profiles relies on hold in every store
  reached from one that satisfies them, in particular from the empty store.
\<close>

lemma get_or_create_store_ok:
  assumes "Token_get_or_create e st uid = Some (t, st')"
  shows "store_ok st' = store_ok st"
proof -
  from assms have "st' = st \<or> st' = st\<lparr>tokens := tokens st @ [t]\<rparr>"
    by (auto simp: Token_get_or_create_def Let_def split: option.splits if_splits)
  then show ?thesis by (auto simp: store_ok_def)
qed

lemma create_store_ok:
  assumes "RegistrationSerializer_create U t st v = Inr (account, st')" and "store_ok st"
  shows "store_ok st'"
proof -
  have st': "st' = snd (account, st')" by simp
  have u: "users st' = users st @ [account]" "User_id account = user_seq st"
    using create_Inr [OF assms(1)] by simp_all
  have p: "\<exists>pr. profiles st' = profiles st @ [pr] \<and> UserProfile_user pr = user_seq st"
    using create_Inr [OF assms(1)] by simp
  have s: "user_seq st' = Suc (user_seq st)"
    using assms(1)
    by (auto simp: RegistrationSerializer_create_def Let_def split: if_splits)
  from p obtain pr where pr: "profiles st' = profiles st @ [pr]" "UserProfile_user pr = user_seq st"
    by blast
  show ?thesis
    using assms(2) unfolding store_ok_def u(1) pr(1) s
    by (auto simp: u(2) pr(2) less_Suc_eq)
qed

lemma register_store_ok:
  assumes "store_ok st"
  shows "store_ok (snd (RegistrationView_post U e st request))"
proof (cases "RegistrationSerializer_is_valid e request")
  case (Inl errors)
  with assms show ?thesis by (simp add: RegistrationView_post_def)
next
  case (Inr v)
  show ?thesis
  proof (cases "RegistrationSerializer_create U (now e) st v")
    case (Inl detail)
    with Inr assms show ?thesis by (simp add: RegistrationView_post_def)
  next
    case c: (Inr result)
    obtain account st1 where r: "result = (account, st1)" by (cases result)
    have ok1: "store_ok st1" using create_store_ok [OF c [unfolded r] assms] .
    show ?thesis
    proof (cases "Token_get_or_create e st1 (User_id account)")
      case None
      with Inr c r ok1 show ?thesis by (simp add: RegistrationView_post_def)
    next
      case (Some a)
      obtain t st2 where a: "a = (t, st2)" by (cases a)
      from Some a get_or_create_store_ok [of e st1 "User_id account" t st2] ok1
      have "store_ok st2" by simp
      with Inr c r Some a show ?thesis by (simp add: RegistrationView_post_def)
    qed
  qed
qed

lemma login_store_ok:
  assumes "store_ok st"
  shows "store_ok (snd (CustomLogInView_post e st request))"
proof (cases "UsernameAuthTokenSerializer_is_valid st request")
  case (Inl errors)
  with assms show ?thesis by (simp add: CustomLogInView_post_def)
next
  case (Inr user)
  show ?thesis
  proof (cases "Token_get_or_create e st (User_id user)")
    case None
    with Inr assms show ?thesis by (simp add: CustomLogInView_post_def)
  next
    case (Some a)
    obtain t st2 where a: "a = (t, st2)" by (cases a)
    from Some a get_or_create_store_ok [of e st "User_id user" t st2] assms
    have "store_ok st2" by simp
    with Inr Some a show ?thesis by (simp add: CustomLogInView_post_def)
  qed
qed

lemma store_ok_posts: "store_ok (st\<lparr>posts := ps, post_seq := n\<rparr>) = store_ok st"
  "store_ok (st\<lparr>posts := ps\<rparr>) = store_ok st"
  by (simp_all add: store_ok_def)

lemma update_store_ok:
  "store_ok (snd (PostViewSet_update partial st pk payload)) = store_ok st"
proof (cases rule: update_cases [of st pk partial payload])
  case missing
  then show ?thesis by simp
next
  case (invalid inst errors)
  then show ?thesis by simp
next
  case (saved inst attrs p st')
  from saved(3) have "st' = snd (PostSerializer_update st inst attrs)" by simp
  then have "store_ok st' = store_ok st"
    by (simp add: PostSerializer_update_def Let_def store_ok_posts)
  then show ?thesis by (simp add: saved(4))
qed

lemma create_post_store_ok:
  "store_ok (snd (PostViewSet_create e st user payload)) = store_ok st"
proof (cases user)
  case None
  then show ?thesis by (simp add: PostViewSet_create_def split: sum.splits)
next
  case (Some u)
  have "store_ok (snd (PostViewSet_create e st (Some u) payload)) = store_ok st"
  proof (cases rule: create_cases [of st payload e u])
    case (invalid errors)
    then show ?thesis by simp
  next
    case (saved attrs)
    show ?thesis
      unfolding saved(2) by (simp add: PostSerializer_create_def Let_def store_ok_posts)
  qed
  with Some show ?thesis by simp
qed

lemma destroy_store_ok: "store_ok (snd (PostViewSet_destroy st pk)) = store_ok st"
  by (cases "get_object st pk") (simp_all add: PostViewSet_destroy_def store_ok_posts)

lemma dispatch_store_ok:
  "store_ok (snd (PostViewSet_dispatch e st rq)) = store_ok st"
proof (cases "has_permission (request_user rq)")
  case False
  then show ?thesis by (simp add: PostViewSet_dispatch_def)
next
  case True
  then show ?thesis
    by (cases "request_action rq")
       (simp_all add: PostViewSet_dispatch_def retrieve_unchanged create_post_store_ok
          update_store_ok destroy_store_ok)
qed

lemma Chat_delete_store_ok: "store_ok (Chat_delete st pk) = store_ok st"
  by (simp add: Chat_delete_def store_ok_def)

lemma User_delete_store_ok:
  assumes "store_ok st"
  shows "store_ok (User_delete st pk)"
proof -
  have u: "users (User_delete st pk) = filter (\<lambda>u. User_id u \<noteq> pk) (users st)"
    and p: "profiles (User_delete st pk)
              = filter (\<lambda>p. UserProfile_user p \<noteq> pk) (profiles st)"
    and s: "user_seq (User_delete st pk) = user_seq st"
    by (simp_all add: User_delete_def UserProfile_user_on_delete_def collect_CASCADE)
  show ?thesis
    using assms unfolding store_ok_def u p s by (auto; metis)
qed

lemma reachable_store_ok:
  "reachable_from U st0 st \<Longrightarrow> store_ok st0 \<Longrightarrow> store_ok st"
proof (induction rule: reachable_from.induct)
  case start
  then show ?case by simp
next
  case (step st opn)
  then show ?case
    by (cases opn)
       (simp_all add: register_store_ok login_store_ok dispatch_store_ok
          Chat_delete_store_ok User_delete_store_ok)
qed

lemma empty_store_ok: "store_ok empty_store"
  by (simp add: store_ok_def empty_store_def)

text \<open>
  No operation adds a Chat: the Chats of the store after an operation are among those of
  the store before it.
\<close>

lemma register_chats: "chats (snd (RegistrationView_post U e st request)) = chats st"
proof (cases rule: register_cases [of U e st request])
  case rejected
  then show ?thesis by simp
next
  case (stored v account st1)
  with create_tables [OF stored(2)] show ?thesis by simp
qed

lemma login_chats: "chats (snd (CustomLogInView_post e st request)) = chats st"
proof (cases "UsernameAuthTokenSerializer_is_valid st request")
  case (Inl errors)
  then show ?thesis by (simp add: CustomLogInView_post_def)
next
  case (Inr user)
  show ?thesis
  proof (cases "Token_get_or_create e st (User_id user)")
    case None
    with Inr show ?thesis by (simp add: CustomLogInView_post_def)
  next
    case (Some a)
    obtain t st2 where a: "a = (t, st2)" by (cases a)
    from Some a get_or_create_tables [of e st "User_id user" t st2]
    have "chats st2 = chats st" by simp
    with Inr Some a show ?thesis by (simp add: CustomLogInView_post_def)
  qed
qed

lemma update_chats: "chats (snd (PostViewSet_update partial st pk payload)) = chats st"
proof (cases rule: update_cases [of st pk partial payload])
  case missing
  then show ?thesis by simp
next
  case (invalid inst errors)
  then show ?thesis by simp
next
  case (saved inst attrs p st')
  with update_tables [OF saved(3)] show ?thesis by simp
qed

lemma create_chats: "chats (snd (PostViewSet_create e st user payload)) = chats st"
proof (cases user)
  case None
  then show ?thesis by (simp add: PostViewSet_create_def split: sum.splits)
next
  case (Some u)
  have "chats (snd (PostViewSet_create e st (Some u) payload)) = chats st"
  proof (cases rule: create_cases [of st payload e u])
    case (invalid errors)
    then show ?thesis by simp
  next
    case (saved attrs)
    show ?thesis
      unfolding saved(2) by (simp add: PostSerializer_create_def Let_def)
  qed
  with Some show ?thesis by simp
qed

lemma destroy_chats: "chats (snd (PostViewSet_destroy st pk)) = chats st"
  by (cases "get_object st pk") (simp_all add: PostViewSet_destroy_def)

lemma dispatch_chats: "chats (snd (PostViewSet_dispatch e st rq)) = chats st"
proof (cases "has_permission (request_user rq)")
  case False
  then show ?thesis by (simp add: PostViewSet_dispatch_def)
next
  case True
  then show ?thesis
    by (cases "request_action rq")
       (simp_all add: PostViewSet_dispatch_def retrieve_unchanged create_chats
          update_chats destroy_chats)
qed

lemma apply_operation_chats: "set (chats (apply_operation U st opn)) \<subseteq> set (chats st)"
  by (cases opn)
     (auto simp: register_chats login_chats dispatch_chats Chat_delete_def User_delete_def)

lemma reachable_chats: "reachable_from U st0 st \<Longrightarrow> set (chats st) \<subseteq> set (chats st0)"
proof (induction rule: reachable_from.induct)
  case start
  show ?case by simp
next
  case (step st opn)
  with apply_operation_chats [of U st opn] show ?case by blast
qed

lemma reachable_store_with_post: "reachable_from ascii_tables empty_store store_with_post"
  unfolding store_with_post_def
  by (intro reachable_from.step reachable_from.start)

text \<open>
  C5 (as amended). Every store reached from a store that satisfies the invariant, by
  registrations, logins, requests to the Post endpoints and deletions of Chats and Users,
  satisfies it: every Post has a non-empty title, every User has a non-empty username and
  a non-empty email, and usernames and emails are unique among the Users. No operation
  creates a Chat: the Chats of a reachable store are among those of the store it was
  reached from, so that a store reached from the empty store has no Chat at all. The
  case tables are those of a Unicode database, in which no code point has an empty
  title-case or lower-case mapping.
\<close>

theorem reachable_store_invariant:
  assumes "case_tables_ok U" and "store_invariant st0" and "reachable_from U st0 st"
  shows "store_invariant st \<and> set (chats st) \<subseteq> set (chats st0)"
proof
  from assms(3) assms(2) show "store_invariant st"
    by (induction rule: reachable_from.induct)
       (simp_all add: apply_operation_invariant [OF assms(1)])
  from assms(3) show "set (chats st) \<subseteq> set (chats st0)" by (rule reachable_chats)
qed

theorem reachable_store_invariant_witness:
  "case_tables_ok ascii_tables \<and> store_invariant empty_store
   \<and> reachable_from ascii_tables empty_store store_with_post
   \<and> store_invariant store_with_post
   \<and> map User_username (users store_with_post) = [ustr ''Alice'', ustr ''Bob  Van Dyke'']
   \<and> map User_email (users store_with_post) = [ustr ''a@x.com'', ustr ''b@x.com'']
   \<and> map Post_title (posts store_with_post) = [ustr ''Hello'']
   \<and> chats store_with_post = []"
proof -
  have e: "map User_username (users store_with_post) = [ustr ''Alice'', ustr ''Bob  Van Dyke'']"
    "map User_email (users store_with_post) = [ustr ''a@x.com'', ustr ''b@x.com'']"
    "map Post_title (posts store_with_post) = [ustr ''Hello'']"
    by (simp_all add: store_with_post_def ev)
  from reachable_store_invariant [OF ascii_tables_ok empty_store_invariant
    reachable_store_with_post]
  have "store_invariant store_with_post" "chats store_with_post = []"
    by (simp_all add: empty_store_def)
  with e ascii_tables_ok empty_store_invariant reachable_store_with_post show ?thesis
    by simp
qed

text \<open>
  The claim as written includes the email of the UserProfile that the registration
  creates. The registration creates the profile from the user alone, and the profile's
  own email is the empty string.
\<close>

theorem registered_profile_email_counterexample:
  "reachable_from ascii_tables empty_store
     (snd (RegistrationView_post ascii_tables sample_env empty_store alice))
   \<and> map UserProfile_email
        (profiles (snd (RegistrationView_post ascii_tables sample_env empty_store alice)))
      = [[]]"
proof -
  have "reachable_from ascii_tables empty_store
     (apply_operation ascii_tables empty_store (Register sample_env alice))"
    by (rule reachable_from.step) (rule reachable_from.start)
  moreover have "map UserProfile_email
        (profiles (snd (RegistrationView_post ascii_tables sample_env empty_store alice)))
      = [[]]"
    by (simp add: ev)
  ultimately show ?thesis by simp
qed

end
